theory Spec2Isabelle
  imports Complex_Main
begin

section \<open>JavaScript numbers\<close>

text \<open>
  The program computes with JavaScript numbers. A finite number is modelled as an exact
  real (the rounding of the 64-bit format is modelled only in the second model of the
  amplitude analysis, its overflow nowhere); the three
  non-finite values are kept apart, because the code tests for them
  (\<^verbatim>\<open>Number.isFinite\<close>, \<^verbatim>\<open>isFinite\<close>, truthiness) and can produce them by a
  division by zero. A zero divisor is taken as \<open>+0\<close>.
\<close>

datatype jsnum = Fin real | PInf | NInf | NaN

fun isFinite :: "jsnum \<Rightarrow> bool" where
  "isFinite (Fin x) = True"
| "isFinite PInf = False"
| "isFinite NInf = False"
| "isFinite NaN = False"

text \<open>\<^verbatim>\<open>a < b\<close>: false as soon as one side is NaN.\<close>

fun js_less :: "jsnum \<Rightarrow> jsnum \<Rightarrow> bool" where
  "js_less NaN b = False"
| "js_less a NaN = False"
| "js_less (Fin a) (Fin b) = (a < b)"
| "js_less (Fin a) PInf = True"
| "js_less (Fin a) NInf = False"
| "js_less NInf NInf = False"
| "js_less NInf b = True"
| "js_less PInf b = False"

text \<open>\<^verbatim>\<open>Math.max\<close> and \<^verbatim>\<open>Math.min\<close> of two numbers: NaN if either is NaN.\<close>

definition js_max :: "jsnum \<Rightarrow> jsnum \<Rightarrow> jsnum" where
  "js_max a b = (if a = NaN \<or> b = NaN then NaN else if js_less a b then b else a)"

definition js_min :: "jsnum \<Rightarrow> jsnum \<Rightarrow> jsnum" where
  "js_min a b = (if a = NaN \<or> b = NaN then NaN else if js_less b a then b else a)"

text \<open>\<^verbatim>\<open>a / b\<close> for finite operands.\<close>

definition js_div :: "real \<Rightarrow> real \<Rightarrow> jsnum" where
  "js_div a b =
     (if b \<noteq> 0 then Fin (a / b)
      else if 0 < a then PInf
      else if a < 0 then NInf
      else NaN)"

fun js_sqrt :: "jsnum \<Rightarrow> jsnum" where
  "js_sqrt (Fin x) = (if x < 0 then NaN else Fin (sqrt x))"
| "js_sqrt PInf = PInf"
| "js_sqrt NInf = NaN"
| "js_sqrt NaN = NaN"

text \<open>
  \<^verbatim>\<open>a % b\<close> on integers: the remainder of the truncating division, which takes the
  sign of the dividend.
\<close>

definition js_rem :: "int \<Rightarrow> int \<Rightarrow> int" where
  "js_rem a b = sgn a * (\<bar>a\<bar> mod \<bar>b\<bar>)"

text \<open>\<^verbatim>\<open>Math.round\<close>: the nearest integer, a tie going up.\<close>

definition js_round :: "real \<Rightarrow> int" where
  "js_round x = \<lfloor>x + 1 / 2\<rfloor>"


section \<open>Amplitude analysis (\<^verbatim>\<open>PitchTracker._analyseAmplitude\<close>)\<close>

record amplitude =
  rms :: jsnum
  peak :: real

text \<open>The loop over the buffer, with its two accumulators.\<close>

fun analyse_loop :: "real list \<Rightarrow> real \<Rightarrow> real \<Rightarrow> real \<times> real" where
  "analyse_loop [] acc pk = (acc, pk)"
| "analyse_loop (sample # rest) acc pk =
     (let acc' = acc + sample * sample;
          magnitude = \<bar>sample\<bar>
      in analyse_loop rest acc' (if magnitude > pk then magnitude else pk))"

definition analyseAmplitude :: "real list \<Rightarrow> amplitude" where
  "analyseAmplitude buffer =
     (case analyse_loop buffer 0 0 of
        (acc, pk) \<Rightarrow>
          \<lparr> rms = js_sqrt (js_div acc (real (length buffer))), peak = pk \<rparr>)"


subsection \<open>The analysis with the rounding of the arithmetic\<close>

text \<open>
  The samples of a frame are 32-bit numbers, and the analysis computes in 64-bit
  arithmetic: every sum, quotient and square root is rounded to the nearest number with
  a significand of 53 bits, a tie going to the even significand. \<open>round64\<close> is this
  rounding (the limits of the exponent, far from the values of a frame, are left out),
  and the second model of the analysis below applies it where the code computes. The
  product of two samples is exact in 64 bits and is rounded all the same, as the
  machine does.
\<close>

definition pow2 :: "int \<Rightarrow> real" where
  "pow2 e = (if 0 \<le> e then 2 ^ nat e else 1 / 2 ^ nat (- e))"

definition round_even :: "real \<Rightarrow> int" where
  "round_even y =
     (let f = \<lfloor>y\<rfloor>; d = y - of_int f
      in if d < 1 / 2 then f else if 1 / 2 < d then f + 1 else if even f then f else f + 1)"

definition round64 :: "real \<Rightarrow> real" where
  "round64 x =
     (if x = 0 then 0
      else (let e = \<lfloor>log 2 \<bar>x\<bar>\<rfloor> - 52
            in sgn x * of_int (round_even (\<bar>x\<bar> / pow2 e)) * pow2 e))"

definition js_div64 :: "real \<Rightarrow> real \<Rightarrow> jsnum" where
  "js_div64 a b =
     (if b \<noteq> 0 then Fin (round64 (a / b))
      else if 0 < a then PInf
      else if a < 0 then NInf
      else NaN)"

fun js_sqrt64 :: "jsnum \<Rightarrow> jsnum" where
  "js_sqrt64 (Fin x) = (if x < 0 then NaN else Fin (round64 (sqrt x)))"
| "js_sqrt64 PInf = PInf"
| "js_sqrt64 NInf = NaN"
| "js_sqrt64 NaN = NaN"

fun analyse_loop64 :: "real list \<Rightarrow> real \<Rightarrow> real \<Rightarrow> real \<times> real" where
  "analyse_loop64 [] acc pk = (acc, pk)"
| "analyse_loop64 (sample # rest) acc pk =
     (let acc' = round64 (acc + round64 (sample * sample));
          magnitude = \<bar>sample\<bar>
      in analyse_loop64 rest acc' (if magnitude > pk then magnitude else pk))"

definition analyseAmplitude64 :: "real list \<Rightarrow> amplitude" where
  "analyseAmplitude64 buffer =
     (case analyse_loop64 buffer 0 0 of
        (acc, pk) \<Rightarrow>
          \<lparr> rms = js_sqrt64 (js_div64 acc (real (length buffer))), peak = pk \<rparr>)"

text \<open>
  A rounding to 53 bits moves a number by at most half a unit of its last place, which
  is at most the fraction \<open>2^-53\<close> of the number: \<open>slack\<close> is the factor by which
  one rounding can enlarge a positive number.
\<close>

definition slack :: real where
  "slack = 1 + 1 / 2 ^ 53"

text \<open>What the loop does to the sum on \<open>n\<close> samples whose squares all round to \<open>m\<close>.\<close>

fun sum_const :: "nat \<Rightarrow> real \<Rightarrow> real \<Rightarrow> real" where
  "sum_const 0 m acc = acc"
| "sum_const (Suc n) m acc = sum_const n m (round64 (acc + m))"


section \<open>Automatic gain control (\<^verbatim>\<open>AutoGainController\<close>)\<close>

text \<open>
  The options of the constructor, after the defaults have been filled in, and the
  controller object. The gain node belongs to the browser's audio graph: the model takes
  from the graph what the code reads (\<^verbatim>\<open>audioContext.currentTime\<close>, passed as \<open>now\<close>) and
  leaves out what the code schedules on it (\<^verbatim>\<open>node.gain.setTargetAtTime\<close>), which
  touches no field of the controller.
\<close>

record agc_options =
  opt_targetRms :: real
  opt_smoothingTime :: real
  opt_minGain :: real
  opt_maxGain :: real
  opt_gainSlew :: real
  opt_epsilon :: real

definition agc_defaults :: agc_options where
  "agc_defaults =
     \<lparr> opt_targetRms = 2 / 10, opt_smoothingTime = 6 / 10, opt_minGain = 1 / 2,
       opt_maxGain = 50, opt_gainSlew = 1 / 10, opt_epsilon = 1 / 1000000 \<rparr>"

record agc =
  targetRms :: real
  smoothingTime :: real
  minGain :: real
  maxGain :: real
  gainSlew :: real
  epsilon :: real
  smoothedRms :: "real option"
  lastUpdateTime :: "real option"
  currentGain :: jsnum

definition new_AutoGainController :: "agc_options \<Rightarrow> agc" where
  "new_AutoGainController opts =
     \<lparr> targetRms = opt_targetRms opts,
       smoothingTime = max (opt_smoothingTime opts) (1 / 1000),
       minGain = opt_minGain opts,
       maxGain = opt_maxGain opts,
       gainSlew = max (opt_gainSlew opts) (1 / 1000),
       epsilon = opt_epsilon opts,
       smoothedRms = None,
       lastUpdateTime = None,
       currentGain = Fin 1 \<rparr>"

definition clamp :: "agc \<Rightarrow> jsnum \<Rightarrow> jsnum" where
  "clamp c v = js_min (Fin (maxGain c)) (js_max (Fin (minGain c)) v)"

record gain_metrics =
  gm_smoothedRms :: jsnum
  gm_gain :: jsnum

text \<open>
  \<^verbatim>\<open>update(rms)\<close>: returns the metrics and the controller after the call. The
  divisor \<open>smoothingTime\<close> is at least \<open>0.001\<close> in every constructed controller.
\<close>

definition update :: "agc \<Rightarrow> jsnum \<Rightarrow> real \<Rightarrow> gain_metrics \<times> agc" where
  "update c r now =
     (case r of
        Fin x \<Rightarrow>
          (let sm =
                 (case smoothedRms c of
                    None \<Rightarrow> x
                  | Some s \<Rightarrow>
                      (let dt = (case lastUpdateTime c of
                                   None \<Rightarrow> 0
                                 | Some t \<Rightarrow> max 0 (now - t));
                           alpha = (if dt > 0 then 1 - exp (- dt / smoothingTime c) else 1)
                       in (1 - alpha) * s + alpha * x));
               desiredGain = clamp c (js_div (targetRms c) (sm + epsilon c))
           in (\<lparr> gm_smoothedRms = Fin sm, gm_gain = desiredGain \<rparr>,
               c\<lparr> smoothedRms := Some sm, currentGain := desiredGain,
                  lastUpdateTime := Some now \<rparr>))
      | _ \<Rightarrow>
          (\<lparr> gm_smoothedRms = (case smoothedRms c of None \<Rightarrow> Fin 0 | Some s \<Rightarrow> Fin s),
             gm_gain = currentGain c \<rparr>, c))"


section \<open>Note mapping (\<^verbatim>\<open>frequencyToNoteData\<close>)\<close>

definition NOTE_NAMES :: "string list" where
  "NOTE_NAMES = [''C'', ''C#'', ''D'', ''D#'', ''E'', ''F'', ''F#'', ''G'', ''G#'', ''A'',
                 ''A#'', ''B'']"

text \<open>
  \<^verbatim>\<open>NOTE_NAMES[noteIndex]\<close> inside a template literal: an index outside the table
  reads \<^verbatim>\<open>undefined\<close>, which the template prints as such.
\<close>

definition note_name_at :: "int \<Rightarrow> string" where
  "note_name_at i = (if 0 \<le> i \<and> i < 12 then NOTE_NAMES ! nat i else ''undefined'')"

text \<open>An integer inside a template literal: its decimal digits, with a sign when negative.\<close>

definition digit :: "nat \<Rightarrow> char" where
  "digit d = ''0123456789'' ! d"

fun decimal :: "nat \<Rightarrow> string" where
  "decimal n = (if 10 \<le> n then decimal (n div 10) @ [digit (n mod 10)] else [digit n])"

definition number_text :: "int \<Rightarrow> string" where
  "number_text i = (if 0 \<le> i then decimal (nat i) else CHR ''-'' # decimal (nat \<bar>i\<bar>))"

record note_data =
  nd_frequency :: real
  midi :: real
  nearestMidi :: int
  cents :: real
  equalFrequency :: real
  noteName :: string

text \<open>The local constant \<^verbatim>\<open>noteIndex\<close>, as a function of \<^verbatim>\<open>nearestMidi\<close>.\<close>

definition noteIndex :: "int \<Rightarrow> int" where
  "noteIndex nearest = js_rem (nearest + 1200) 12"

text \<open>
  The index as the specification writes it, \<^verbatim>\<open>((nearestMidi % 12) + 12) % 12\<close>, to be
  compared with the one of the code.
\<close>

definition noteIndex_spec :: "int \<Rightarrow> int" where
  "noteIndex_spec nearest = js_rem (js_rem nearest 12 + 12) 12"

text \<open>The argument is a finite number; \<^verbatim>\<open>!frequency\<close> is then \<open>frequency = 0\<close>.\<close>

definition frequencyToNoteData :: "real \<Rightarrow> note_data option" where
  "frequencyToNoteData f =
     (if f = 0 \<or> f \<le> 0 then None
      else
        (let m = 69 + 12 * log 2 (f / 440);
             nearest = js_round m;
             octave = \<lfloor>real_of_int nearest / 12\<rfloor> - 1;
             name = note_name_at (noteIndex nearest) @ number_text octave;
             equal = 440 * 2 powr ((real_of_int nearest - 69) / 12);
             c = 1200 * log 2 (f / equal)
         in Some \<lparr> nd_frequency = f, midi = m, nearestMidi = nearest, cents = c,
                    equalFrequency = equal, noteName = name \<rparr>))"


section \<open>The polling loop (\<^verbatim>\<open>startPolling\<close>)\<close>

text \<open>What the tracker hands to the loop on a tick (\<^verbatim>\<open>null\<close> is \<open>None\<close>).\<close>

record reading =
  frequency :: "jsnum option"
  probability :: jsnum
  r_rms :: jsnum
  r_peak :: real
  r_smoothedRms :: jsnum
  r_gain :: jsnum

definition MIN_VALID_FREQ :: real where "MIN_VALID_FREQ = 110"
definition MAX_VALID_FREQ :: real where "MAX_VALID_FREQ = 1660"
definition MAX_JUMP_HZ :: real where "MAX_JUMP_HZ = 160"
definition MAX_GAP_MS :: real where "MAX_GAP_MS = 200"
definition MISS_THRESHOLD :: nat where "MISS_THRESHOLD = 4"

text \<open>
  The module's variables. The counter only ever holds small integers and is modelled as
  a natural number.
\<close>

record stabilizer =
  missCounter :: nat
  lastNoPitchLog :: real
  lastDetectionLog :: real
  lastDetectionTime :: real
  lastFrequency :: "real option"

text \<open>
  What a tick does to the page and to the visualizer. \<open>ResetReadouts\<close> is the call
  of \<^verbatim>\<open>resetReadouts()\<close>, which clears the three labels.
\<close>

datatype ui_event =
    SetStatus string
  | ResetReadouts
  | Readouts note_data
  | VisualizerUpdate real real int

definition renderReadouts :: "note_data \<Rightarrow> ui_event list" where
  "renderReadouts nd = [Readouts nd, SetStatus []]"

text \<open>
  The test of the first branch, read the other way round: the frequency the tick goes
  on with. The branch is taken (a miss) when there is no reading, when its frequency is
  \<^verbatim>\<open>null\<close>, \<open>0\<close> or NaN (all falsy), and when it is not finite.
\<close>

fun detected :: "reading option \<Rightarrow> real option" where
  "detected None = None"
| "detected (Some r) =
     (case frequency r of
        Some (Fin f) \<Rightarrow> if f = 0 then None else Some f
      | _ \<Rightarrow> None)"

text \<open>
  One run of the interval callback, given the clock and the result of
  \<^verbatim>\<open>tracker.getPitch()\<close>: the variables afterwards and the calls made. The status text
  of the source has an ellipsis character where this one has three dots.
\<close>

definition poll_tick :: "stabilizer \<Rightarrow> real \<Rightarrow> reading option \<Rightarrow> stabilizer \<times> ui_event list" where
  "poll_tick s timestamp estimation =
     (case detected estimation of
        None \<Rightarrow>
          (let s1 = s\<lparr> missCounter := missCounter s + 1 \<rparr>;
               s2 = (if timestamp - lastNoPitchLog s1 > 500
                     then s1\<lparr> lastNoPitchLog := timestamp \<rparr> else s1)
           in (s2, if missCounter s2 = MISS_THRESHOLD
                   then [SetStatus ''Listening... play a clear tone.'', ResetReadouts]
                   else []))
      | Some f \<Rightarrow>
          (let s1 = s\<lparr> missCounter := 0 \<rparr>
           in if f \<le> 0 then (s1, [])
              else
                (let fr = min (max f MIN_VALID_FREQ) MAX_VALID_FREQ;
                     timeSinceLast = timestamp - lastDetectionTime s1
                 in if lastDetectionTime s1 \<noteq> 0 \<and> timeSinceLast < MAX_GAP_MS
                       \<and> (case lastFrequency s1 of
                             None \<Rightarrow> False
                           | Some lf \<Rightarrow> \<bar>fr - lf\<bar> > MAX_JUMP_HZ)
                    then (s1, [])
                    else
                      (let s2 = s1\<lparr> lastDetectionTime := timestamp, lastFrequency := Some fr \<rparr>
                       in case frequencyToNoteData fr of
                            None \<Rightarrow> (s2, [])
                          | Some nd \<Rightarrow>
                              (if timestamp - lastDetectionLog s2 > 500
                               then s2\<lparr> lastDetectionLog := timestamp \<rparr> else s2,
                               renderReadouts nd
                                 @ [VisualizerUpdate (nd_frequency nd) (cents nd)
                                      (js_rem (nearestMidi nd + 1200) 12)])))))"

text \<open>A run of ticks, each with its clock value and reading; the calls are collected.\<close>

fun poll_run :: "stabilizer \<Rightarrow> (real \<times> reading option) list \<Rightarrow> stabilizer \<times> ui_event list" where
  "poll_run s [] = (s, [])"
| "poll_run s ((timestamp, estimation) # rest) =
     (case poll_tick s timestamp estimation of
        (s', out) \<Rightarrow> (case poll_run s' rest of (s'', out') \<Rightarrow> (s'', out @ out')))"



text \<open>The variables as the module sets them, and as \<^verbatim>\<open>startListening\<close> resets them.\<close>

definition initial_stabilizer :: stabilizer where
  "initial_stabilizer =
     \<lparr> missCounter = 0, lastNoPitchLog = 0, lastDetectionLog = 0, lastDetectionTime = 0,
       lastFrequency = None \<rparr>"

text \<open>
  Concrete inputs for the examples below: the variables after a frequency \<open>f\<close> was
  accepted at clock value \<open>t\<close> and \<open>k\<close> ticks without pitch have followed; a reading that
  carries the frequency \<open>f\<close>; a reading without pitch.
\<close>

definition locked :: "real \<Rightarrow> real \<Rightarrow> nat \<Rightarrow> stabilizer" where
  "locked t f k =
     \<lparr> missCounter = k, lastNoPitchLog = 0, lastDetectionLog = t, lastDetectionTime = t,
       lastFrequency = Some f \<rparr>"

definition detection :: "real \<Rightarrow> reading" where
  "detection f =
     \<lparr> frequency = Some (Fin f), probability = Fin (9 / 10), r_rms = Fin (1 / 10),
       r_peak = 1 / 5, r_smoothedRms = Fin (1 / 10), r_gain = Fin 2 \<rparr>"


text \<open>The variables after a first tick, at the clock value \<open>t0\<close>, has read 440 Hz.\<close>

definition first_lock :: "real \<Rightarrow> stabilizer" where
  "first_lock t0 = fst (poll_run initial_stabilizer [(t0, Some (detection 440))])"


section \<open>The YIN estimator (\<^verbatim>\<open>YinPitchDetector\<close>)\<close>

text \<open>
  A cell of the two scratch arrays holds a finite number or NaN (\<open>None\<close>): the samples
  are finite, the sums of the difference function are sums of finite numbers, and the one
  division that fills the second array has a divisor tested to be nonzero. NaN comes from
  a read past the end of the sample buffer (\<^verbatim>\<open>undefined\<close>, NaN in arithmetic) and
  spreads through every operation; a comparison with NaN is false. The arrays are
  \<^verbatim>\<open>Float32Array\<close>s: a read past the end is \<^verbatim>\<open>undefined\<close> and a write past the end
  is dropped, as \<open>xs[i := v]\<close> does.
\<close>

type_synonym cell = "real option"

definition nan_add :: "cell \<Rightarrow> cell \<Rightarrow> cell" where
  "nan_add a b = (case a of None \<Rightarrow> None | Some x \<Rightarrow> (case b of None \<Rightarrow> None | Some y \<Rightarrow> Some (x + y)))"

definition nan_sub :: "cell \<Rightarrow> cell \<Rightarrow> cell" where
  "nan_sub a b = (case a of None \<Rightarrow> None | Some x \<Rightarrow> (case b of None \<Rightarrow> None | Some y \<Rightarrow> Some (x - y)))"

definition nan_mul :: "cell \<Rightarrow> cell \<Rightarrow> cell" where
  "nan_mul a b = (case a of None \<Rightarrow> None | Some x \<Rightarrow> (case b of None \<Rightarrow> None | Some y \<Rightarrow> Some (x * y)))"

definition nan_less :: "cell \<Rightarrow> cell \<Rightarrow> bool" where
  "nan_less a b = (case a of None \<Rightarrow> False | Some x \<Rightarrow> (case b of None \<Rightarrow> False | Some y \<Rightarrow> x < y))"

definition cell_at :: "'a option list \<Rightarrow> nat \<Rightarrow> 'a option" where
  "cell_at xs i = (if i < length xs then xs ! i else None)"

definition sample_at :: "real list \<Rightarrow> nat \<Rightarrow> cell" where
  "sample_at buffer i = (if i < length buffer then Some (buffer ! i) else None)"

record yin =
  sampleRate :: real
  threshold :: real
  y_probabilityThreshold :: real
  y_bufferSize :: nat
  halfBuffer :: nat
  difference :: "cell list"
  cumulativeMean :: "cell list"

definition new_YinPitchDetector :: "real \<Rightarrow> real \<Rightarrow> real \<Rightarrow> nat \<Rightarrow> yin" where
  "new_YinPitchDetector rate thr pthr n =
     \<lparr> sampleRate = rate, threshold = thr, y_probabilityThreshold = pthr,
       y_bufferSize = n, halfBuffer = n div 2,
       difference = replicate (n div 2) (Some 0),
       cumulativeMean = replicate (n div 2) (Some 0) \<rparr>"

text \<open>Step 1. The inner loop over \<open>i\<close>, then the outer loop over \<open>tau\<close>.\<close>

definition difference_sum :: "real list \<Rightarrow> nat \<Rightarrow> nat \<Rightarrow> cell" where
  "difference_sum buffer h tau =
     fold (\<lambda>i acc.
             (let delta = nan_sub (sample_at buffer i) (sample_at buffer (i + tau))
              in nan_add acc (nan_mul delta delta)))
          [0..<h] (Some 0)"

definition difference_step :: "yin \<Rightarrow> real list \<Rightarrow> yin" where
  "difference_step y buffer =
     y\<lparr> difference :=
          fold (\<lambda>tau d. d[tau := difference_sum buffer (halfBuffer y) tau])
               [1..<halfBuffer y] ((difference y)[0 := Some 0]) \<rparr>"

text \<open>
  Step 2. The loop from \<open>tau\<close> on, with the running sum. \<^verbatim>\<open>runningSum !== 0\<close> holds
  for NaN, and the quotient is then NaN.
\<close>

function cmnd_loop :: "nat \<Rightarrow> cell list \<Rightarrow> nat \<Rightarrow> cell \<Rightarrow> cell list \<Rightarrow> cell list" where
  "cmnd_loop h d tau runningSum cm =
     (if tau < h then
        (let runningSum' = nan_add runningSum (cell_at d tau);
             v = (case runningSum' of
                    None \<Rightarrow> None
                  | Some rs \<Rightarrow>
                      if rs \<noteq> 0
                      then (case cell_at d tau of
                              None \<Rightarrow> None
                            | Some x \<Rightarrow> Some (x * real tau / rs))
                      else Some 1)
         in cmnd_loop h d (tau + 1) runningSum' (cm[tau := v]))
      else cm)"
  by pat_completeness auto
termination
  by (relation "measure (\<lambda>(h, d, tau, runningSum, cm). h - tau)") auto

definition cumulativeMeanNormalizedDifference :: "yin \<Rightarrow> yin" where
  "cumulativeMeanNormalizedDifference y =
     y\<lparr> cumulativeMean :=
          cmnd_loop (halfBuffer y) (difference y) 1 (Some 0) ((cumulativeMean y)[0 := Some 1]) \<rparr>"

text \<open>Step 3. The inner \<^verbatim>\<open>while\<close>, then the \<^verbatim>\<open>for\<close> from \<open>tau\<close> on; \<open>None\<close> is \<open>-1\<close>.\<close>

function descend :: "cell list \<Rightarrow> nat \<Rightarrow> nat \<Rightarrow> nat" where
  "descend cm h tau =
     (if tau + 1 < h \<and> nan_less (cell_at cm (tau + 1)) (cell_at cm tau)
      then descend cm h (tau + 1) else tau)"
  by pat_completeness auto
termination
  by (relation "measure (\<lambda>(cm, h, tau). h - tau)") auto

function threshold_search :: "cell list \<Rightarrow> nat \<Rightarrow> real \<Rightarrow> nat \<Rightarrow> nat option" where
  "threshold_search cm h thr tau =
     (if tau < h then
        (if nan_less (cell_at cm tau) (Some thr) then Some (descend cm h tau)
         else threshold_search cm h thr (tau + 1))
      else None)"
  by pat_completeness auto
termination
  by (relation "measure (\<lambda>(cm, h, thr, tau). h - tau)") auto

definition absoluteThreshold :: "yin \<Rightarrow> nat option" where
  "absoluteThreshold y = threshold_search (cumulativeMean y) (halfBuffer y) (threshold y) 2"

text \<open>
  Step 4. The refined lag is not finite when one of the three cells is NaN or when the
  divisor is zero; the integer lag is returned then.
\<close>

definition parabolicInterpolation :: "yin \<Rightarrow> nat \<Rightarrow> real" where
  "parabolicInterpolation y tau =
     (if tau < 1 \<or> tau + 1 \<ge> halfBuffer y then real tau
      else
        (case cell_at (cumulativeMean y) (tau - 1) of
           None \<Rightarrow> real tau
         | Some s0 \<Rightarrow>
             (case cell_at (cumulativeMean y) tau of
                None \<Rightarrow> real tau
              | Some s1 \<Rightarrow>
                  (case cell_at (cumulativeMean y) (tau + 1) of
                     None \<Rightarrow> real tau
                   | Some s2 \<Rightarrow>
                       (case js_div (s2 - s0) (2 * (2 * s1 - s2 - s0)) of
                          Fin q \<Rightarrow> real tau + q
                        | _ \<Rightarrow> real tau)))))"

record estimate =
  e_frequency :: jsnum
  e_probability :: jsnum

text \<open>The first two calls of \<^verbatim>\<open>getPitch(buffer)\<close>, which fill the scratch arrays.\<close>

definition yin_scan :: "yin \<Rightarrow> real list \<Rightarrow> yin" where
  "yin_scan y buffer = cumulativeMeanNormalizedDifference (difference_step y buffer)"

text \<open>\<^verbatim>\<open>getPitch(buffer)\<close>: the estimate, or \<open>None\<close> for \<^verbatim>\<open>null\<close>, and the detector afterwards.\<close>

definition yin_getPitch :: "yin \<Rightarrow> real list \<Rightarrow> estimate option \<times> yin" where
  "yin_getPitch y buffer =
     (let y' = yin_scan y buffer
      in case absoluteThreshold y' of
           None \<Rightarrow> (None, y')
         | Some tau \<Rightarrow>
             (let betterTau = parabolicInterpolation y' tau;
                  fr = js_div (sampleRate y') betterTau
              in case cell_at (cumulativeMean y') tau of
                   None \<Rightarrow> (Some \<lparr> e_frequency = fr, e_probability = NaN \<rparr>, y')
                 | Some c \<Rightarrow>
                     (if 1 - c < y_probabilityThreshold y' then (None, y')
                      else (Some \<lparr> e_frequency = fr, e_probability = Fin (1 - c) \<rparr>, y'))))"


section \<open>The tracking engine (\<^verbatim>\<open>PitchTracker\<close>)\<close>

datatype context_state = Suspended | Running | Closed

datatype error = TypeError

text \<open>
  The tracker object. \<open>analyser\<close> says whether an analyser node is held, \<open>audioContext\<close>
  is the state of the audio context when there is one. The three log stamps carry the
  source's names without the leading underscore. \<open>autoGainOptions\<close> is the merged
  options object of the constructor.
\<close>

record tracker =
  bufferSize :: nat
  yinThreshold :: real
  probabilityThreshold :: real
  rmsThreshold :: real
  audioContext :: "context_state option"
  analyser :: bool
  yin :: "yin option"
  initialized :: bool
  t_lastLowRmsLog :: real
  t_lastNullPitchLog :: real
  t_lastDetectionLog :: real
  autoGain :: "agc option"
  autoGainOptions :: agc_options

definition tracker_autoGain_defaults :: agc_options where
  "tracker_autoGain_defaults = agc_defaults\<lparr> opt_maxGain := 200 \<rparr>"

definition new_PitchTracker :: "nat \<Rightarrow> real \<Rightarrow> real \<Rightarrow> real \<Rightarrow> agc_options \<Rightarrow> tracker" where
  "new_PitchTracker n ythr pthr rthr opts =
     \<lparr> bufferSize = n, yinThreshold = ythr, probabilityThreshold = pthr,
       rmsThreshold = rthr, audioContext = None, analyser = False, yin = None,
       initialized = False, t_lastLowRmsLog = 0, t_lastNullPitchLog = 0,
       t_lastDetectionLog = 0, autoGain = None, autoGainOptions = opts \<rparr>"

text \<open>
  \<^verbatim>\<open>init()\<close> once the microphone stream is granted: \<open>rate\<close> and \<open>st\<close> are the sample
  rate and the state of the audio context the browser has created.
\<close>

definition init :: "tracker \<Rightarrow> real \<Rightarrow> context_state \<Rightarrow> tracker" where
  "init t rate st =
     (if initialized t then t
      else t\<lparr> audioContext := Some st,
              autoGain := Some (new_AutoGainController (autoGainOptions t)),
              analyser := True,
              yin := Some (new_YinPitchDetector rate (yinThreshold t) (probabilityThreshold t)
                             (bufferSize t)),
              initialized := True \<rparr>)"

text \<open>
  The statement that feeds the gain controller, when there is one: the metrics, and the
  tracker with the controller after \<^verbatim>\<open>update\<close>.
\<close>

definition feed_autoGain :: "tracker \<Rightarrow> jsnum \<Rightarrow> real \<Rightarrow> gain_metrics \<times> tracker" where
  "feed_autoGain t r currentTime =
     (case autoGain t of
        Some c \<Rightarrow> (case update c r currentTime of (m, c') \<Rightarrow> (m, t\<lparr> autoGain := Some c' \<rparr>))
      | None \<Rightarrow> (\<lparr> gm_smoothedRms = r, gm_gain = Fin 1 \<rparr>, t))"

text \<open>
  \<^verbatim>\<open>getPitch()\<close>. \<open>frame\<close> is the content of \<^verbatim>\<open>this.buffer\<close> once the analyser has
  filled it, \<open>currentTime\<close> the clock of the audio context, \<open>now\<close> the value of
  \<^verbatim>\<open>performance.now()\<close>. A call on a missing detector raises \<^verbatim>\<open>TypeError\<close>.
\<close>

definition getPitch :: "tracker \<Rightarrow> real list \<Rightarrow> real \<Rightarrow> real \<Rightarrow> (error + reading option) \<times> tracker" where
  "getPitch t frame currentTime now =
     (if \<not> initialized t \<or> \<not> analyser t \<or> audioContext t \<noteq> Some Running then (Inr None, t)
      else
        (let a = analyseAmplitude frame
         in case feed_autoGain t (rms a) currentTime of
              (gainMetrics, t1) \<Rightarrow>
                if js_less (rms a) (Fin (rmsThreshold t1)) then
                  (Inr (Some \<lparr> frequency = None, probability = Fin 0, r_rms = rms a,
                               r_peak = peak a,
                               r_smoothedRms = gm_smoothedRms gainMetrics,
                               r_gain = gm_gain gainMetrics \<rparr>),
                   if now - t_lastLowRmsLog t1 > 500 then t1\<lparr> t_lastLowRmsLog := now \<rparr> else t1)
                else
                  (case yin t1 of
                     None \<Rightarrow> (Inl TypeError, t1)
                   | Some y \<Rightarrow>
                       (case yin_getPitch y frame of
                          (None, y') \<Rightarrow>
                            (Inr (Some \<lparr> frequency = None, probability = Fin 0, r_rms = rms a,
                                         r_peak = peak a,
                                         r_smoothedRms = gm_smoothedRms gainMetrics,
                                         r_gain = gm_gain gainMetrics \<rparr>),
                             (if now - t_lastNullPitchLog t1 > 500
                              then t1\<lparr> t_lastNullPitchLog := now \<rparr> else t1)\<lparr> yin := Some y' \<rparr>)
                        | (Some e, y') \<Rightarrow>
                            (Inr (Some \<lparr> frequency = Some (e_frequency e),
                                         probability = e_probability e, r_rms = rms a,
                                         r_peak = peak a,
                                         r_smoothedRms = gm_smoothedRms gainMetrics,
                                         r_gain = gm_gain gainMetrics \<rparr>),
                             (if now - t_lastDetectionLog t1 > 500
                              then t1\<lparr> t_lastDetectionLog := now \<rparr> else t1)\<lparr> yin := Some y' \<rparr>)))))"


section \<open>Concrete inputs\<close>

text \<open>
  A frame of eight samples with period two, a frame whose dip at lag two is shallow, a
  detector for frames of eight samples at a sample rate of 19, one with a high probability
  threshold, and a tracker that has been initialised for such frames and is running.
\<close>

definition square_frame :: "real list" where
  "square_frame = [1, - 1, 1, - 1, 1, - 1, 1, - 1]"

definition shallow_frame :: "real list" where
  "shallow_frame = [- 1, 1, - 1, 0, - 1, 1, - 1, - 1 / 2]"

definition small_yin :: yin where
  "small_yin = new_YinPitchDetector 19 (1 / 10) (15 / 100) 8"

definition strict_yin :: yin where
  "strict_yin = new_YinPitchDetector 19 (1 / 2) (9 / 10) 8"

definition small_tracker :: tracker where
  "small_tracker =
     init (new_PitchTracker 8 (1 / 10) (15 / 100) (1 / 100) tracker_autoGain_defaults) 19 Running"

section \<open>Properties of the amplitude analysis\<close>

lemma analyse_loop_acc: "fst (analyse_loop xs acc pk) = acc + (\<Sum>x\<leftarrow>xs. x * x)"
  by (induction xs arbitrary: acc pk) (simp_all add: Let_def)

lemma analyse_loop_peak_mono: "pk \<le> snd (analyse_loop xs acc pk)"
proof (induction xs arbitrary: acc pk)
  case Nil
  show ?case by simp
next
  case (Cons x xs)
  have "pk \<le> (if \<bar>x\<bar> > pk then \<bar>x\<bar> else pk)" by simp
  also have "\<dots> \<le> snd (analyse_loop xs (acc + x * x) (if \<bar>x\<bar> > pk then \<bar>x\<bar> else pk))"
    by (rule Cons.IH)
  finally show ?case by (simp add: Let_def)
qed

lemma analyse_loop_peak_bound: "x \<in> set xs \<Longrightarrow> \<bar>x\<bar> \<le> snd (analyse_loop xs acc pk)"
proof (induction xs arbitrary: acc pk)
  case Nil
  then show ?case by simp
next
  case (Cons y ys)
  show ?case
  proof (cases "x = y")
    case True
    have "\<bar>y\<bar> \<le> (if \<bar>y\<bar> > pk then \<bar>y\<bar> else pk)" by simp
    also have "\<dots> \<le> snd (analyse_loop ys (acc + y * y) (if \<bar>y\<bar> > pk then \<bar>y\<bar> else pk))"
      by (rule analyse_loop_peak_mono)
    finally show ?thesis using True by (simp add: Let_def)
  next
    case False
    with Cons.prems have "x \<in> set ys" by simp
    then show ?thesis using Cons.IH by (simp add: Let_def)
  qed
qed

lemma sum_squares_le:
  fixes p :: real
  assumes "\<And>x. x \<in> set xs \<Longrightarrow> \<bar>x\<bar> \<le> p"
  shows "(\<Sum>x\<leftarrow>xs. x * x) \<le> real (length xs) * (p * p)"
  using assms
proof (induction xs)
  case Nil
  show ?case by simp
next
  case (Cons y ys)
  have "\<bar>y\<bar> \<le> p" using Cons.prems by simp
  moreover from this have "0 \<le> p" by linarith
  ultimately have "\<bar>y\<bar> * \<bar>y\<bar> \<le> p * p" by (intro mult_mono) simp_all
  then have "y * y \<le> p * p" by simp
  moreover have "(\<Sum>x\<leftarrow>ys. x * x) \<le> real (length ys) * (p * p)"
    using Cons by simp
  ultimately show ?case by (simp add: algebra_simps)
qed

lemma sum_squares_nonneg: "0 \<le> (\<Sum>x\<leftarrow>xs. x * x)" for xs :: "real list"
  by (induction xs) simp_all

lemma analyse_loop_zeros: "analyse_loop (replicate n 0) 0 0 = (0, 0)"
  by (induction n) (simp_all add: Let_def)

lemma analyseAmplitude_zeros:
  "0 < n \<Longrightarrow> analyseAmplitude (replicate n 0) = \<lparr> rms = Fin 0, peak = 0 \<rparr>"
  by (simp add: analyseAmplitude_def analyse_loop_zeros js_div_def)

text \<open>
  With the arithmetic taken exactly, a frame with at least one sample has a finite
  \<open>rms\<close> between \<open>0\<close> and its \<open>peak\<close>. (For the empty frame the code divides zero by
  zero.) What the rounding of the machine leaves of this is the subject of the last
  section.
\<close>

lemma analyseAmplitude_exact:
  assumes "buffer \<noteq> []"
  shows "\<exists>r. rms (analyseAmplitude buffer) = Fin r \<and> 0 \<le> r
             \<and> r \<le> peak (analyseAmplitude buffer) \<and> 0 \<le> peak (analyseAmplitude buffer)"
proof -
  obtain acc pk where L: "analyse_loop buffer 0 0 = (acc, pk)"
    by (cases "analyse_loop buffer 0 0")
  have acc: "acc = (\<Sum>x\<leftarrow>buffer. x * x)" using analyse_loop_acc [of buffer 0 0] L by simp
  have pk0: "0 \<le> pk" using analyse_loop_peak_mono [of 0 buffer 0] L by simp
  have bound: "\<And>x. x \<in> set buffer \<Longrightarrow> \<bar>x\<bar> \<le> pk"
    using analyse_loop_peak_bound [of _ buffer 0 0] L by simp
  let ?n = "real (length buffer)"
  have n: "0 < ?n" using assms by simp
  have "acc \<le> ?n * (pk * pk)" unfolding acc by (rule sum_squares_le) (rule bound)
  then have "acc / ?n \<le> pk * pk" using n by (simp add: field_simps)
  then have "sqrt (acc / ?n) \<le> sqrt (pk * pk)" by (rule real_sqrt_le_mono)
  then have le: "sqrt (acc / ?n) \<le> pk" using pk0 by simp
  have nonneg: "0 \<le> acc / ?n" unfolding acc using sum_squares_nonneg n by simp
  have "rms (analyseAmplitude buffer) = Fin (sqrt (acc / ?n))"
    using n nonneg by (simp add: analyseAmplitude_def L js_div_def)
  moreover have "peak (analyseAmplitude buffer) = pk" by (simp add: analyseAmplitude_def L)
  ultimately show ?thesis using le pk0 nonneg by simp
qed


section \<open>Properties of the gain controller\<close>

lemma clamp_range:
  assumes "minGain c \<le> maxGain c" and "v \<noteq> NaN"
  shows "\<exists>g. clamp c v = Fin g \<and> minGain c \<le> g \<and> g \<le> maxGain c"
  using assms by (cases v) (auto simp: clamp_def js_max_def js_min_def)

lemma js_div_not_NaN: "a \<noteq> 0 \<Longrightarrow> js_div a b \<noteq> NaN"
  by (simp add: js_div_def)

text \<open>
  Claim C8. When \<^verbatim>\<open>update\<close> is called with a value that is not finite, the controller
  is left as it was (no field changes), and the call returns the smoothed RMS known so
  far (\<open>0\<close> when none is known yet) and the gain in effect.
\<close>

theorem update_non_finite:
  assumes "\<not> isFinite r"
  shows "update c r now =
           (\<lparr> gm_smoothedRms = Fin (case smoothedRms c of None \<Rightarrow> 0 | Some s \<Rightarrow> s),
              gm_gain = currentGain c \<rparr>, c)"
  using assms by (cases r) (simp_all add: update_def split: option.splits)

theorem update_non_finite_witness:
  "\<not> isFinite NaN
   \<and> update (new_AutoGainController agc_defaults) NaN 3 =
       (\<lparr> gm_smoothedRms = Fin 0, gm_gain = Fin 1 \<rparr>, new_AutoGainController agc_defaults)"
proof -
  have h: "\<not> isFinite NaN" by simp
  show ?thesis
    using h update_non_finite [OF h, of "new_AutoGainController agc_defaults" 3]
    by (simp add: new_AutoGainController_def)
qed

text \<open>
  Claim C9. For a controller with \<open>minGain \<le> maxGain\<close> and a target level other than
  zero, every call of \<^verbatim>\<open>update\<close> with a finite value, whatever its size or sign and
  whatever the controller has seen before, returns a finite gain within
  \<open>[minGain, maxGain]\<close> and stores that same gain. (With a target of zero the quotient
  can be \<open>0 / 0\<close>, which the two-sided clamp hands through as NaN.)
\<close>

theorem update_gain_in_range:
  assumes "minGain c \<le> maxGain c" and "targetRms c \<noteq> 0"
  shows "\<exists>g. gm_gain (fst (update c (Fin x) now)) = Fin g
            \<and> currentGain (snd (update c (Fin x) now)) = Fin g
            \<and> minGain c \<le> g \<and> g \<le> maxGain c"
proof -
  define sm where "sm = (case smoothedRms c of
                    None \<Rightarrow> x
                  | Some s \<Rightarrow>
                      (let dt = (case lastUpdateTime c of
                                   None \<Rightarrow> 0
                                 | Some t \<Rightarrow> max 0 (now - t));
                           alpha = (if dt > 0 then 1 - exp (- dt / smoothingTime c) else 1)
                       in (1 - alpha) * s + alpha * x))"
  obtain g where g: "clamp c (js_div (targetRms c) (sm + epsilon c)) = Fin g"
    "minGain c \<le> g" "g \<le> maxGain c"
    using clamp_range [OF assms(1) js_div_not_NaN [OF assms(2)]] by blast
  have "gm_gain (fst (update c (Fin x) now)) = Fin g"
    using g(1) by (simp add: update_def Let_def sm_def)
  moreover have "currentGain (snd (update c (Fin x) now)) = Fin g"
    using g(1) by (simp add: update_def Let_def sm_def)
  ultimately show ?thesis using g by blast
qed

theorem update_gain_in_range_witness:
  "minGain (new_AutoGainController agc_defaults) \<le> maxGain (new_AutoGainController agc_defaults)
   \<and> targetRms (new_AutoGainController agc_defaults) \<noteq> 0
   \<and> (\<exists>g. gm_gain (fst (update (new_AutoGainController agc_defaults) (Fin 0) 0)) = Fin g
          \<and> currentGain (snd (update (new_AutoGainController agc_defaults) (Fin 0) 0)) = Fin g
          \<and> minGain (new_AutoGainController agc_defaults) \<le> g
          \<and> g \<le> maxGain (new_AutoGainController agc_defaults))
   \<and> gm_gain (fst (update (new_AutoGainController agc_defaults) (Fin 0) 0)) = Fin 50"
proof -
  have h1: "minGain (new_AutoGainController agc_defaults)
              \<le> maxGain (new_AutoGainController agc_defaults)"
    by (simp add: new_AutoGainController_def agc_defaults_def)
  have h2: "targetRms (new_AutoGainController agc_defaults) \<noteq> 0"
    by (simp add: new_AutoGainController_def agc_defaults_def)
  have v: "gm_gain (fst (update (new_AutoGainController agc_defaults) (Fin 0) 0)) = Fin 50"
    by (simp add: update_def new_AutoGainController_def agc_defaults_def clamp_def
                  js_div_def js_max_def js_min_def Let_def)
  show ?thesis using h1 h2 v update_gain_in_range [OF h1 h2, of 0 0] by blast
qed

section \<open>Properties of the note mapping\<close>

lemma log2_tiny: "log 2 (1 / 81129638414606681695789005144064) = - 106"
proof -
  have "log 2 (1 / 2 ^ 106) = - real (106::nat)"
    by (simp only: log_divide_pos log_nat_power log_one log_eq_one zero_less_numeral
                   zero_less_power zero_less_one)
  then show ?thesis by simp
qed

lemma round_tiny: "js_round (69 + 12 * log 2 (440 / 2 ^ 106 / 440)) = - 1203"
  by (simp add: js_round_def log2_tiny)

lemma number_text_tiny: "number_text (- 102) = ''-102''"
  by (simp add: number_text_def digit_def)

lemma name_tiny:
  "note_name_at (noteIndex (- 1203)) @ number_text (\<lfloor>real_of_int (- 1203) / 12\<rfloor> - 1)
     = ''undefined-102''"
proof -
  have "\<lfloor>real_of_int (- 1203) / 12\<rfloor> = (- 101 :: int)" by linarith
  then show ?thesis
    by (simp add: noteIndex_def js_rem_def note_name_at_def number_text_tiny)
qed








text \<open>
  The lower end of the range is not far from where the two indices part. For the
  frequency \<open>440 / 2^106\<close> Hz, which no tick of the polling loop can pass on, the nearest
  MIDI number is \<open>-1203\<close>: the code's index is \<open>-3\<close> where the formula gives \<open>9\<close>, and
  the note name is built from a read outside the table.
\<close>

lemma noteIndex_outside_range:
  "map_option nearestMidi (frequencyToNoteData (440 / 2 ^ 106)) = Some (- 1203)
   \<and> noteIndex (- 1203) = - 3
   \<and> noteIndex_spec (- 1203) = 9
   \<and> map_option noteName (frequencyToNoteData (440 / 2 ^ 106)) = Some ''undefined-102''"
proof -
  have pos: "\<not> ((440::real) / 2 ^ 106 = 0 \<or> (440::real) / 2 ^ 106 \<le> 0)" by simp
  have a: "map_option nearestMidi (frequencyToNoteData (440 / 2 ^ 106)) = Some (- 1203)"
    unfolding frequencyToNoteData_def Let_def if_not_P [OF pos] round_tiny by simp
  have b: "noteIndex (- 1203) = - 3" by (simp add: noteIndex_def js_rem_def)
  have c: "noteIndex_spec (- 1203) = 9" by (simp add: noteIndex_spec_def js_rem_def)
  have d: "map_option noteName (frequencyToNoteData (440 / 2 ^ 106)) = Some ''undefined-102''"
    unfolding frequencyToNoteData_def Let_def if_not_P [OF pos] round_tiny
    using name_tiny by simp
  show ?thesis using a b c d by blast
qed


section \<open>Properties of the polling loop\<close>







text \<open>
  The two ways a tick with a positive finite frequency can end once it has passed the
  clamp: the jump gate discards it, or it is accepted and shown.
\<close>

lemma clamped_positive: "0 < min (max f MIN_VALID_FREQ) MAX_VALID_FREQ"
  by (simp add: MIN_VALID_FREQ_def MAX_VALID_FREQ_def)

lemma poll_tick_rejects:
  assumes "detected e = Some f" and "0 < f"
    and "lastDetectionTime s \<noteq> 0" and "ts - lastDetectionTime s < MAX_GAP_MS"
    and "lastFrequency s = Some lf"
    and "MAX_JUMP_HZ < \<bar>min (max f MIN_VALID_FREQ) MAX_VALID_FREQ - lf\<bar>"
  shows "poll_tick s ts e = (s\<lparr> missCounter := 0 \<rparr>, [])"
  using assms by (simp add: poll_tick_def Let_def)

lemma poll_tick_accepts:
  assumes "detected e = Some f" and "0 < f"
    and "lastDetectionTime s = 0 \<or> MAX_GAP_MS \<le> ts - lastDetectionTime s"
  shows "\<exists>nd. frequencyToNoteData (min (max f MIN_VALID_FREQ) MAX_VALID_FREQ) = Some nd
           \<and> nd_frequency nd = min (max f MIN_VALID_FREQ) MAX_VALID_FREQ
           \<and> snd (poll_tick s ts e) =
                renderReadouts nd
                  @ [VisualizerUpdate (nd_frequency nd) (cents nd) (js_rem (nearestMidi nd + 1200) 12)]"
    and "missCounter (fst (poll_tick s ts e)) = 0"
    and "lastDetectionTime (fst (poll_tick s ts e)) = ts"
    and "lastFrequency (fst (poll_tick s ts e)) = Some (min (max f MIN_VALID_FREQ) MAX_VALID_FREQ)"
proof -
  let ?fr = "min (max f MIN_VALID_FREQ) MAX_VALID_FREQ"
  have "0 < ?fr" by (rule clamped_positive)
  then have pos: "\<not> (?fr = 0 \<or> ?fr \<le> 0)" by linarith
  obtain nd where nd: "frequencyToNoteData ?fr = Some nd" "nd_frequency nd = ?fr"
    unfolding frequencyToNoteData_def Let_def if_not_P [OF pos] by simp
  have gate: "\<not> (lastDetectionTime s \<noteq> 0 \<and> ts - lastDetectionTime s < MAX_GAP_MS
                 \<and> (case lastFrequency s of None \<Rightarrow> False | Some lf \<Rightarrow> \<bar>?fr - lf\<bar> > MAX_JUMP_HZ))"
    using assms(3) by auto
  have t: "poll_tick s ts e =
             (if ts - lastDetectionLog s > 500
              then s\<lparr> missCounter := 0, lastDetectionTime := ts, lastFrequency := Some ?fr,
                      lastDetectionLog := ts \<rparr>
              else s\<lparr> missCounter := 0, lastDetectionTime := ts, lastFrequency := Some ?fr \<rparr>,
              renderReadouts nd
                @ [VisualizerUpdate (nd_frequency nd) (cents nd) (js_rem (nearestMidi nd + 1200) 12)])"
    using assms(1,2) gate nd(1) by (simp add: poll_tick_def Let_def)
  show "\<exists>nd. frequencyToNoteData ?fr = Some nd \<and> nd_frequency nd = ?fr
           \<and> snd (poll_tick s ts e) =
                renderReadouts nd
                  @ [VisualizerUpdate (nd_frequency nd) (cents nd) (js_rem (nearestMidi nd + 1200) 12)]"
    using nd t by simp
  show "missCounter (fst (poll_tick s ts e)) = 0" using t by simp
  show "lastDetectionTime (fst (poll_tick s ts e)) = ts" using t by simp
  show "lastFrequency (fst (poll_tick s ts e)) = Some ?fr" using t by simp
qed

lemma detected_detection: "f \<noteq> 0 \<Longrightarrow> detected (Some (detection f)) = Some f"
  by (simp add: detection_def)

text \<open>
  Claim C1, as the code has it. On a tick whose reading carries a positive finite
  frequency that the jump gate discards (the time of the last acceptance is not the
  initial \<open>0\<close>, less than \<open>MAX_GAP_MS\<close> have passed since, and the clamped frequency is
  more than \<open>MAX_JUMP_HZ\<close> away from the last accepted one), the counter of misses is set
  to zero, it is not incremented, the last accepted frequency and its time stay as they
  were, and nothing is shown.
\<close>

theorem jump_rejected_tick:
  assumes "detected e = Some f" and "0 < f"
    and "lastDetectionTime s \<noteq> 0" and "ts - lastDetectionTime s < MAX_GAP_MS"
    and "lastFrequency s = Some lf"
    and "MAX_JUMP_HZ < \<bar>min (max f MIN_VALID_FREQ) MAX_VALID_FREQ - lf\<bar>"
  shows "poll_tick s ts e = (s\<lparr> missCounter := 0 \<rparr>, [])
       \<and> missCounter (fst (poll_tick s ts e)) = 0
       \<and> lastFrequency (fst (poll_tick s ts e)) = lastFrequency s
       \<and> lastDetectionTime (fst (poll_tick s ts e)) = lastDetectionTime s"
  using poll_tick_rejects [OF assms] by simp

theorem jump_rejected_tick_witness:
  "detected (Some (detection 700)) = Some 700 \<and> (0::real) < 700
   \<and> lastDetectionTime (locked 1000 440 2) \<noteq> 0
   \<and> 1060 - lastDetectionTime (locked 1000 440 2) < MAX_GAP_MS
   \<and> lastFrequency (locked 1000 440 2) = Some 440
   \<and> MAX_JUMP_HZ < \<bar>min (max 700 MIN_VALID_FREQ) MAX_VALID_FREQ - 440\<bar>
   \<and> poll_tick (locked 1000 440 2) 1060 (Some (detection 700)) = (locked 1000 440 0, [])"
proof -
  have h1: "detected (Some (detection 700)) = Some 700" by (simp add: detection_def)
  have h2: "(0::real) < 700" by simp
  have h3: "lastDetectionTime (locked 1000 440 2) \<noteq> 0" by (simp add: locked_def)
  have h4: "1060 - lastDetectionTime (locked 1000 440 2) < MAX_GAP_MS"
    by (simp add: locked_def MAX_GAP_MS_def)
  have h5: "lastFrequency (locked 1000 440 2) = Some 440" by (simp add: locked_def)
  have h6: "MAX_JUMP_HZ < \<bar>min (max 700 MIN_VALID_FREQ) MAX_VALID_FREQ - 440\<bar>"
    by (simp add: MAX_JUMP_HZ_def MIN_VALID_FREQ_def MAX_VALID_FREQ_def)
  have "(locked 1000 440 2)\<lparr> missCounter := 0 \<rparr> = locked 1000 440 0" by (simp add: locked_def)
  then show ?thesis
    using h1 h2 h3 h4 h5 h6 jump_rejected_tick [OF h1 h2 h3 h4 h5 h6] by simp
qed

text \<open>
  Claim C1 as stated fails: after 440 Hz was accepted at 1000 ms and two ticks without
  pitch have brought the counter to 2, a reading of 700 Hz at 1060 ms is discarded by the
  jump gate, and the counter is back at 0.
\<close>

theorem jump_rejected_resets_counter:
  "missCounter (locked 1000 440 2) = 2
   \<and> poll_tick (locked 1000 440 2) 1060 (Some (detection 700)) = (locked 1000 440 0, [])
   \<and> missCounter (fst (poll_tick (locked 1000 440 2) 1060 (Some (detection 700)))) = 0"
proof -
  have "poll_tick (locked 1000 440 2) 1060 (Some (detection 700))
          = ((locked 1000 440 2)\<lparr> missCounter := 0 \<rparr>, [])"
    by (rule poll_tick_rejects [of _ 700 _ _ 440])
       (simp_all add: detection_def locked_def MAX_GAP_MS_def MAX_JUMP_HZ_def
                      MIN_VALID_FREQ_def MAX_VALID_FREQ_def)
  then show ?thesis by (simp add: locked_def)
qed

text \<open>
  The time of the last acceptance is a clock value. At the start of a session no
  frequency is stored (the module starts this way, and \<^verbatim>\<open>startListening\<close> and
  \<^verbatim>\<open>stopListening\<close> set \<^verbatim>\<open>lastFrequency = null\<close>); a tick stores a frequency together
  with its clock value. So as long as the clock does not read \<open>0\<close> on a tick, a stored
  frequency comes with a time of acceptance other than \<open>0\<close>, the value that stands for
  ``nothing accepted yet''.
\<close>

lemma poll_tick_time:
  "lastFrequency s = None \<or> lastDetectionTime s \<noteq> 0 \<Longrightarrow> ts \<noteq> 0 \<Longrightarrow>
   lastFrequency (fst (poll_tick s ts e)) = None \<or> lastDetectionTime (fst (poll_tick s ts e)) \<noteq> 0"
  by (auto simp add: poll_tick_def Let_def split: option.splits if_splits)

lemma poll_run_state:
  "fst (poll_run s ((ts, e) # rest)) = fst (poll_run (fst (poll_tick s ts e)) rest)"
  by (simp split: prod.splits)

lemma poll_run_time:
  "lastFrequency s = None \<or> lastDetectionTime s \<noteq> 0 \<Longrightarrow> 0 \<notin> fst ` set ticks \<Longrightarrow>
   lastFrequency (fst (poll_run s ticks)) = None \<or> lastDetectionTime (fst (poll_run s ticks)) \<noteq> 0"
proof (induction ticks arbitrary: s)
  case Nil
  then show ?case by simp
next
  case (Cons tick ticks)
  obtain ts e where tick: "tick = (ts, e)" by (cases tick)
  have ts: "ts \<noteq> 0" using Cons.prems(2) tick by auto
  have rest: "0 \<notin> fst ` set ticks" using Cons.prems(2) by auto
  have "lastFrequency (fst (poll_tick s ts e)) = None
          \<or> lastDetectionTime (fst (poll_tick s ts e)) \<noteq> 0"
    by (rule poll_tick_time [OF Cons.prems(1) ts])
  from Cons.IH [OF this rest] show ?case
    unfolding tick poll_run_state .
qed

text \<open>A reading with a frequency that the gate discards, whatever the sign of the frequency.\<close>

lemma poll_tick_discards:
  assumes "detected e = Some f"
    and "lastDetectionTime s \<noteq> 0" and "ts - lastDetectionTime s < MAX_GAP_MS"
    and "lastFrequency s = Some lf"
    and "MAX_JUMP_HZ < \<bar>min (max f MIN_VALID_FREQ) MAX_VALID_FREQ - lf\<bar>"
  shows "poll_tick s ts e = (s\<lparr> missCounter := 0 \<rparr>, [])"
  using assms by (simp add: poll_tick_def Let_def)

lemma first_lock_state:
  "lastFrequency (first_lock t0) = Some 440" "lastDetectionTime (first_lock t0) = t0"
  "missCounter (first_lock t0) = 0"
proof -
  have d: "detected (Some (detection 440)) = Some 440" by (simp add: detection_def)
  have c: "min (max 440 MIN_VALID_FREQ) MAX_VALID_FREQ = 440"
    by (simp add: MIN_VALID_FREQ_def MAX_VALID_FREQ_def)
  have p: "(0::real) < 440" by simp
  have g: "lastDetectionTime initial_stabilizer = 0
             \<or> MAX_GAP_MS \<le> t0 - lastDetectionTime initial_stabilizer"
    by (simp add: initial_stabilizer_def)
  have r: "first_lock t0 = fst (poll_tick initial_stabilizer t0 (Some (detection 440)))"
    by (simp add: first_lock_def split: prod.splits)
  show "lastFrequency (first_lock t0) = Some 440"
    using poll_tick_accepts(4) [OF d p g] c r by simp
  show "lastDetectionTime (first_lock t0) = t0"
    using poll_tick_accepts(3) [OF d p g] r by simp
  show "missCounter (first_lock t0) = 0"
    using poll_tick_accepts(2) [OF d p g] r by simp
qed

text \<open>
  Claim C2. Take a session: a run of ticks from a state without a stored frequency, on
  none of which the clock reads \<open>0\<close> (the clock counts the milliseconds since the page
  was loaded and the first tick comes after the microphone has started). Let a frequency
  have been accepted and let the reading of the next tick carry a number. If less than
  \<open>MAX_GAP_MS\<close> have passed since the last acceptance and the clamped frequency is more
  than \<open>MAX_JUMP_HZ\<close> away from the last accepted one, the reading is discarded: nothing
  is shown and the last accepted frequency and time stay. If \<open>MAX_GAP_MS\<close> or more have
  passed, a reading with a positive frequency (the tracker reports no other) is accepted
  whatever the jump: the clamped frequency and the clock value are stored and the note is
  shown. In particular, after 440 Hz was accepted on the first tick, at the clock value
  \<open>t0\<close>, 700 Hz is discarded 50 ms later and accepted 300 ms later.
\<close>

theorem jump_gate:
  "(lastFrequency s0 = None \<and> 0 \<notin> fst ` set ticks \<and> s = fst (poll_run s0 ticks)
      \<and> lastFrequency s = Some lf \<and> detected e = Some f \<longrightarrow>
      (ts - lastDetectionTime s < MAX_GAP_MS
         \<and> MAX_JUMP_HZ < \<bar>min (max f MIN_VALID_FREQ) MAX_VALID_FREQ - lf\<bar>
       \<longrightarrow> poll_tick s ts e = (s\<lparr> missCounter := 0 \<rparr>, []))
    \<and> (0 < f \<and> MAX_GAP_MS \<le> ts - lastDetectionTime s
       \<longrightarrow> lastFrequency (fst (poll_tick s ts e)) = Some (min (max f MIN_VALID_FREQ) MAX_VALID_FREQ)
         \<and> lastDetectionTime (fst (poll_tick s ts e)) = ts
         \<and> (\<exists>nd. frequencyToNoteData (min (max f MIN_VALID_FREQ) MAX_VALID_FREQ) = Some nd
               \<and> snd (poll_tick s ts e) =
                    renderReadouts nd
                      @ [VisualizerUpdate (nd_frequency nd) (cents nd)
                           (js_rem (nearestMidi nd + 1200) 12)])))
   \<and> (t0 \<noteq> 0 \<longrightarrow>
        lastFrequency (first_lock t0) = Some 440 \<and> lastDetectionTime (first_lock t0) = t0
      \<and> poll_tick (first_lock t0) (t0 + 50) (Some (detection 700)) = (first_lock t0, [])
      \<and> lastFrequency (fst (poll_tick (first_lock t0) (t0 + 300) (Some (detection 700)))) = Some 700
      \<and> lastDetectionTime (fst (poll_tick (first_lock t0) (t0 + 300) (Some (detection 700))))
           = t0 + 300)"
proof -
  have general: "(ts - lastDetectionTime s < MAX_GAP_MS
         \<and> MAX_JUMP_HZ < \<bar>min (max f MIN_VALID_FREQ) MAX_VALID_FREQ - lf\<bar>
       \<longrightarrow> poll_tick s ts e = (s\<lparr> missCounter := 0 \<rparr>, []))
    \<and> (0 < f \<and> MAX_GAP_MS \<le> ts - lastDetectionTime s
       \<longrightarrow> lastFrequency (fst (poll_tick s ts e)) = Some (min (max f MIN_VALID_FREQ) MAX_VALID_FREQ)
         \<and> lastDetectionTime (fst (poll_tick s ts e)) = ts
         \<and> (\<exists>nd. frequencyToNoteData (min (max f MIN_VALID_FREQ) MAX_VALID_FREQ) = Some nd
               \<and> snd (poll_tick s ts e) =
                    renderReadouts nd
                      @ [VisualizerUpdate (nd_frequency nd) (cents nd)
                           (js_rem (nearestMidi nd + 1200) 12)]))"
    if h: "lastFrequency s0 = None" "0 \<notin> fst ` set ticks" "s = fst (poll_run s0 ticks)"
          "lastFrequency s = Some lf" "detected e = Some f"
  proof (intro conjI impI)
    have "lastFrequency s = None \<or> lastDetectionTime s \<noteq> 0"
      unfolding h(3) using h(1,2) by (intro poll_run_time) simp_all
    then have clock: "lastDetectionTime s \<noteq> 0" using h(4) by simp
    assume "ts - lastDetectionTime s < MAX_GAP_MS
         \<and> MAX_JUMP_HZ < \<bar>min (max f MIN_VALID_FREQ) MAX_VALID_FREQ - lf\<bar>"
    then show "poll_tick s ts e = (s\<lparr> missCounter := 0 \<rparr>, [])"
      using poll_tick_discards [OF h(5) clock _ h(4)] by blast
  next
    assume g: "0 < f \<and> MAX_GAP_MS \<le> ts - lastDetectionTime s"
    then have p: "0 < f"
      and g': "lastDetectionTime s = 0 \<or> MAX_GAP_MS \<le> ts - lastDetectionTime s" by simp_all
    show "lastFrequency (fst (poll_tick s ts e)) = Some (min (max f MIN_VALID_FREQ) MAX_VALID_FREQ)"
      by (rule poll_tick_accepts(4) [OF h(5) p g'])
    show "lastDetectionTime (fst (poll_tick s ts e)) = ts"
      by (rule poll_tick_accepts(3) [OF h(5) p g'])
    show "\<exists>nd. frequencyToNoteData (min (max f MIN_VALID_FREQ) MAX_VALID_FREQ) = Some nd
               \<and> snd (poll_tick s ts e) =
                    renderReadouts nd
                      @ [VisualizerUpdate (nd_frequency nd) (cents nd)
                           (js_rem (nearestMidi nd + 1200) 12)]"
      using poll_tick_accepts(1) [OF h(5) p g'] by blast
  qed
  have d: "detected (Some (detection 700)) = Some 700" by (simp add: detection_def)
  have c: "min (max 700 MIN_VALID_FREQ) MAX_VALID_FREQ = 700"
    by (simp add: MIN_VALID_FREQ_def MAX_VALID_FREQ_def)
  have particular:
    "lastFrequency (first_lock t0) = Some 440 \<and> lastDetectionTime (first_lock t0) = t0
      \<and> poll_tick (first_lock t0) (t0 + 50) (Some (detection 700)) = (first_lock t0, [])
      \<and> lastFrequency (fst (poll_tick (first_lock t0) (t0 + 300) (Some (detection 700)))) = Some 700
      \<and> lastDetectionTime (fst (poll_tick (first_lock t0) (t0 + 300) (Some (detection 700))))
           = t0 + 300"
    if t0: "t0 \<noteq> 0"
  proof -
    note st = first_lock_state [of t0]
    have "poll_tick (first_lock t0) (t0 + 50) (Some (detection 700))
            = ((first_lock t0)\<lparr> missCounter := 0 \<rparr>, [])"
      by (rule poll_tick_discards [OF d, of _ _ 440])
         (use t0 in \<open>simp_all add: st MAX_GAP_MS_def MAX_JUMP_HZ_def c\<close>)
    moreover have "(first_lock t0)\<lparr> missCounter := 0 \<rparr> = first_lock t0"
      using st(3) by simp
    ultimately have a: "poll_tick (first_lock t0) (t0 + 50) (Some (detection 700))
                          = (first_lock t0, [])"
      by simp
    have g: "lastDetectionTime (first_lock t0) = 0
               \<or> MAX_GAP_MS \<le> t0 + 300 - lastDetectionTime (first_lock t0)"
      by (simp add: st MAX_GAP_MS_def)
    have p: "(0::real) < 700" by simp
    show ?thesis
      using a st poll_tick_accepts(3,4) [OF d p g] c by simp
  qed
  show ?thesis using general particular by blast
qed

theorem jump_gate_witness:
  "lastFrequency initial_stabilizer = None
   \<and> 0 \<notin> fst ` set [(1000 :: real, Some (detection 440))]
   \<and> fst (poll_run initial_stabilizer [(1000, Some (detection 440))]) = locked 1000 440 0
   \<and> lastFrequency (locked 1000 440 0) = Some 440
   \<and> detected (Some (detection 700)) = Some 700 \<and> (0::real) < 700
   \<and> 1050 - lastDetectionTime (locked 1000 440 0) < MAX_GAP_MS
   \<and> MAX_GAP_MS \<le> 1300 - lastDetectionTime (locked 1000 440 0)
   \<and> MAX_JUMP_HZ < \<bar>min (max 700 MIN_VALID_FREQ) MAX_VALID_FREQ - 440\<bar>
   \<and> poll_tick (locked 1000 440 0) 1050 (Some (detection 700)) = (locked 1000 440 0, [])
   \<and> lastFrequency (fst (poll_tick (locked 1000 440 0) 1300 (Some (detection 700)))) = Some 700
   \<and> lastDetectionTime (fst (poll_tick (locked 1000 440 0) 1300 (Some (detection 700)))) = 1300"
proof -
  have run: "fst (poll_run initial_stabilizer [(1000, Some (detection 440))]) = locked 1000 440 0"
    by (simp add: poll_tick_def Let_def initial_stabilizer_def locked_def detection_def
                  frequencyToNoteData_def MIN_VALID_FREQ_def MAX_VALID_FREQ_def
             split: prod.splits)
  have h: "lastFrequency initial_stabilizer = None
      \<and> 0 \<notin> fst ` set [(1000 :: real, Some (detection 440))]
      \<and> lastFrequency (locked 1000 440 0) = Some 440
      \<and> detected (Some (detection 700)) = Some 700 \<and> (0::real) < 700
      \<and> 1050 - lastDetectionTime (locked 1000 440 0) < MAX_GAP_MS
      \<and> MAX_GAP_MS \<le> 1300 - lastDetectionTime (locked 1000 440 0)
      \<and> MAX_JUMP_HZ < \<bar>min (max 700 MIN_VALID_FREQ) MAX_VALID_FREQ - 440\<bar>
      \<and> min (max 700 MIN_VALID_FREQ) MAX_VALID_FREQ = 700"
    by (simp add: initial_stabilizer_def detection_def locked_def MAX_GAP_MS_def MAX_JUMP_HZ_def
                  MIN_VALID_FREQ_def MAX_VALID_FREQ_def)
  have m: "(locked 1000 440 0)\<lparr> missCounter := 0 \<rparr> = locked 1000 440 0"
    by (simp add: locked_def)
  show ?thesis
    using h run m
      jump_gate [of initial_stabilizer "[(1000, Some (detection 440))]" "locked 1000 440 0" 440
                    "Some (detection 700)" 700 1050 1000]
      jump_gate [of initial_stabilizer "[(1000, Some (detection 440))]" "locked 1000 440 0" 440
                    "Some (detection 700)" 700 1300 1000]
    by (simp add: locked_def MAX_GAP_MS_def MAX_JUMP_HZ_def MIN_VALID_FREQ_def
                  MAX_VALID_FREQ_def)
qed


section \<open>Properties of the YIN estimator\<close>

declare cmnd_loop.simps [simp del] descend.simps [simp del] threshold_search.simps [simp del]

lemma cmnd_loop_length: "length (cmnd_loop h d tau rs cm) = length cm"
proof (induction h d tau rs cm rule: cmnd_loop.induct)
  case (1 h d tau rs cm)
  show ?case
  proof (cases "tau < h")
    case True
    then show ?thesis
      using "1.IH" by (subst cmnd_loop.simps) (simp add: Let_def)
  next
    case False
    then show ?thesis by (subst cmnd_loop.simps) simp
  qed
qed

lemma cmnd_loop_below: "i < tau \<Longrightarrow> cmnd_loop h d tau rs cm ! i = cm ! i"
proof (induction h d tau rs cm rule: cmnd_loop.induct)
  case (1 h d tau rs cm)
  show ?case
  proof (cases "tau < h")
    case True
    then show ?thesis
      using "1.IH" "1.prems" by (subst cmnd_loop.simps) (simp add: Let_def)
  next
    case False
    then show ?thesis by (subst cmnd_loop.simps) simp
  qed
qed

lemma cmnd_first_cell:
  "cell_at (cmnd_loop h d 1 (Some 0) cm) 1 = None \<or> cell_at (cmnd_loop h d 1 (Some 0) cm) 1 = Some 1 \<or> h \<le> 1"
proof (cases "1 < h \<and> 1 < length cm")
  case True
  have "cmnd_loop h d 1 (Some 0) cm ! 1 = None \<or> cmnd_loop h d 1 (Some 0) cm ! 1 = Some 1"
    using True
    by (subst (1 2) cmnd_loop.simps)
       (auto simp: Let_def cmnd_loop_below nan_add_def split: option.splits)
  then show ?thesis using True by (simp add: cell_at_def cmnd_loop_length)
next
  case False
  then show ?thesis by (auto simp: cell_at_def cmnd_loop_length)
qed

lemma descend_ge: "t \<le> descend cm h t"
proof (induction cm h t rule: descend.induct)
  case (1 cm h tau)
  show ?case
  proof (cases "tau + 1 < h \<and> nan_less (cell_at cm (tau + 1)) (cell_at cm tau)")
    case True
    then have "tau + 1 \<le> descend cm h (tau + 1)" using "1.IH" by simp
    then show ?thesis using True by (subst descend.simps) simp
  next
    case False
    then show ?thesis by (subst descend.simps) auto
  qed
qed

lemma descend_stops:
  "\<not> (descend cm h t + 1 < h \<and> nan_less (cell_at cm (descend cm h t + 1)) (cell_at cm (descend cm h t)))"
proof (induction cm h t rule: descend.induct)
  case (1 cm h tau)
  show ?case
  proof (cases "tau + 1 < h \<and> nan_less (cell_at cm (tau + 1)) (cell_at cm tau)")
    case True
    then show ?thesis using "1.IH" by (subst (1 2 3) descend.simps) simp
  next
    case False
    then show ?thesis by (subst (1 2 3) descend.simps) auto
  qed
qed

lemma descend_below:
  "descend cm h t = t \<or> nan_less (cell_at cm (descend cm h t)) (cell_at cm (descend cm h t - 1))"
proof (induction cm h t rule: descend.induct)
  case (1 cm h tau)
  show ?case
  proof (cases "tau + 1 < h \<and> nan_less (cell_at cm (tau + 1)) (cell_at cm tau)")
    case True
    then have eq: "descend cm h tau = descend cm h (tau + 1)" by (subst descend.simps) simp
    from True "1.IH" have "descend cm h (tau + 1) = tau + 1
        \<or> nan_less (cell_at cm (descend cm h (tau + 1))) (cell_at cm (descend cm h (tau + 1) - 1))"
      by simp
    then show ?thesis using True eq by auto
  next
    case False
    then show ?thesis by (subst descend.simps) auto
  qed
qed

lemma nan_less_trans: "nan_less a b \<Longrightarrow> nan_less b c \<Longrightarrow> nan_less a c"
  by (auto simp: nan_less_def split: option.splits)

lemma descend_less:
  "nan_less (cell_at cm t) c \<Longrightarrow> nan_less (cell_at cm (descend cm h t)) c"
proof (induction cm h t rule: descend.induct)
  case (1 cm h tau)
  show ?case
  proof (cases "tau + 1 < h \<and> nan_less (cell_at cm (tau + 1)) (cell_at cm tau)")
    case True
    then have eq: "descend cm h tau = descend cm h (tau + 1)" by (subst descend.simps) simp
    have "nan_less (cell_at cm (tau + 1)) c" using True "1.prems" nan_less_trans by blast
    then show ?thesis using True "1.IH" eq by simp
  next
    case False
    then have "descend cm h tau = tau" by (subst descend.simps) auto
    then show ?thesis using "1.prems" by simp
  qed
qed

lemma descend_bound: "t < h \<Longrightarrow> descend cm h t < h"
proof (induction cm h t rule: descend.induct)
  case (1 cm h tau)
  show ?case
  proof (cases "tau + 1 < h \<and> nan_less (cell_at cm (tau + 1)) (cell_at cm tau)")
    case True
    then have eq: "descend cm h tau = descend cm h (tau + 1)" by (subst descend.simps) simp
    then show ?thesis using True "1.IH" by simp
  next
    case False
    then have "descend cm h tau = tau" by (subst descend.simps) auto
    then show ?thesis using "1.prems" by simp
  qed
qed

lemma threshold_search_first:
  "threshold_search cm h thr t0 = Some tau \<Longrightarrow>
     \<exists>t. t0 \<le> t \<and> t < h \<and> nan_less (cell_at cm t) (Some thr) \<and> tau = descend cm h t
        \<and> (t0 < t \<longrightarrow> \<not> nan_less (cell_at cm (t - 1)) (Some thr))"
proof (induction cm h thr t0 rule: threshold_search.induct)
  case (1 cm h thr tau0)
  show ?case
  proof (cases "tau0 < h")
    case False
    then have "threshold_search cm h thr tau0 = None" by (subst threshold_search.simps) simp
    then show ?thesis using "1.prems" by simp
  next
    case True
    show ?thesis
    proof (cases "nan_less (cell_at cm tau0) (Some thr)")
      case hit: True
      then have "threshold_search cm h thr tau0 = Some (descend cm h tau0)"
        using True by (subst threshold_search.simps) simp
      then have "tau = descend cm h tau0" using "1.prems" by simp
      then show ?thesis using True hit by blast
    next
      case miss: False
      then have "threshold_search cm h thr tau0 = threshold_search cm h thr (tau0 + 1)"
        using True by (subst threshold_search.simps) simp
      then have "threshold_search cm h thr (tau0 + 1) = Some tau" using "1.prems" by simp
      then obtain t where t: "tau0 + 1 \<le> t" "t < h" "nan_less (cell_at cm t) (Some thr)"
          "tau = descend cm h t"
          "tau0 + 1 < t \<longrightarrow> \<not> nan_less (cell_at cm (t - 1)) (Some thr)"
        using "1.IH" True miss by blast
      have "\<not> nan_less (cell_at cm (t - 1)) (Some thr)"
      proof (cases "tau0 + 1 < t")
        case True
        then show ?thesis using t(5) by simp
      next
        case False
        then have "t - 1 = tau0" using t(1) by simp
        then show ?thesis using miss by simp
      qed
      then show ?thesis using t by (intro exI [of _ t]) simp
    qed
  qed
qed

text \<open>What the threshold search tells about the lag it returns.\<close>

lemma absoluteThreshold_props:
  assumes "absoluteThreshold y = Some tau"
  shows "2 \<le> tau" and "tau < halfBuffer y"
    and "\<exists>s1. cell_at (cumulativeMean y) tau = Some s1 \<and> s1 < threshold y"
    and "\<not> (tau + 1 < halfBuffer y \<and> nan_less (cell_at (cumulativeMean y) (tau + 1)) (cell_at (cumulativeMean y) tau))"
    and "tau = 2 \<or> nan_less (cell_at (cumulativeMean y) tau) (cell_at (cumulativeMean y) (tau - 1))
          \<or> \<not> nan_less (cell_at (cumulativeMean y) (tau - 1)) (Some (threshold y))"
proof -
  let ?cm = "cumulativeMean y" and ?h = "halfBuffer y"
  obtain t where t: "2 \<le> t" "t < ?h" "nan_less (cell_at ?cm t) (Some (threshold y))"
      "tau = descend ?cm ?h t" "2 < t \<longrightarrow> \<not> nan_less (cell_at ?cm (t - 1)) (Some (threshold y))"
    using threshold_search_first [of ?cm ?h "threshold y" 2 tau] assms
    by (auto simp: absoluteThreshold_def)
  show "2 \<le> tau" using t(1,4) descend_ge [of t ?cm ?h] by simp
  show "tau < ?h" using t(2,4) descend_bound by simp
  have "nan_less (cell_at ?cm tau) (Some (threshold y))" using t(3,4) descend_less by simp
  then show "\<exists>s1. cell_at ?cm tau = Some s1 \<and> s1 < threshold y"
    by (auto simp: nan_less_def split: option.splits)
  show "\<not> (tau + 1 < ?h \<and> nan_less (cell_at ?cm (tau + 1)) (cell_at ?cm tau))"
    using t(4) descend_stops [of ?cm ?h t] by simp
  show "tau = 2 \<or> nan_less (cell_at ?cm tau) (cell_at ?cm (tau - 1))
          \<or> \<not> nan_less (cell_at ?cm (tau - 1)) (Some (threshold y))"
    using t(1,4,5) descend_below [of ?cm ?h t] by (cases "t = 2") auto
qed

lemma parabolic_quotient_bound:
  fixes s0 s1 s2 :: real
  assumes "s1 \<le> s0" and "s1 \<le> s2" and "js_div (s2 - s0) (2 * (2 * s1 - s2 - s0)) = Fin q"
  shows "- (1 / 2) \<le> q" and "q \<le> 1 / 2"
proof -
  let ?d = "2 * (2 * s1 - s2 - s0)"
  have d0: "?d \<noteq> 0" using assms(3) by (auto simp: js_div_def split: if_splits)
  have "?d \<le> 0" using assms(1,2) by simp
  then have dneg: "?d < 0" using d0 by simp
  have q: "q = (s2 - s0) / ?d" using assms(3) d0 by (simp add: js_div_def)
  have "s2 - s0 \<le> - (1 / 2) * ?d" using assms(1) by (simp add: algebra_simps)
  then have "- (1 / 2) \<le> (s2 - s0) / ?d" using dneg by (simp only: neg_le_divide_eq)
  then show "- (1 / 2) \<le> q" using q by simp
  have "1 / 2 * ?d \<le> s2 - s0" using assms(2) by (simp add: algebra_simps)
  then have "(s2 - s0) / ?d \<le> 1 / 2" using dneg by (simp only: neg_divide_le_eq)
  then show "q \<le> 1 / 2" using q by simp
qed

lemma parabolicInterpolation_bound:
  assumes "cell_at (cumulativeMean y) tau = Some s1"
    and "\<And>s0. cell_at (cumulativeMean y) (tau - 1) = Some s0 \<Longrightarrow> s1 \<le> s0"
    and "\<And>s2. tau + 1 < halfBuffer y \<Longrightarrow> cell_at (cumulativeMean y) (tau + 1) = Some s2 \<Longrightarrow> s1 \<le> s2"
  shows "real tau - 1 / 2 \<le> parabolicInterpolation y tau"
proof (cases "tau < 1 \<or> tau + 1 \<ge> halfBuffer y")
  case True
  then show ?thesis by (simp add: parabolicInterpolation_def)
next
  case False
  show ?thesis
  proof (cases "cell_at (cumulativeMean y) (tau - 1)")
    case None
    then show ?thesis using False by (simp add: parabolicInterpolation_def)
  next
    case s0: (Some s0)
    show ?thesis
    proof (cases "cell_at (cumulativeMean y) (tau + 1)")
      case None
      then show ?thesis using False s0 assms(1) by (simp add: parabolicInterpolation_def)
    next
      case s2: (Some s2)
      have a: "s1 \<le> s0" using assms(2) s0 by simp
      have b: "s1 \<le> s2" using assms(3) s2 False by simp
      show ?thesis
      proof (cases "js_div (s2 - s0) (2 * (2 * s1 - s2 - s0))")
        case (Fin q)
        then have "- (1 / 2) \<le> q" using parabolic_quotient_bound(1) [OF a b] by simp
        then show ?thesis using False s0 s2 assms(1) Fin
          by (simp add: parabolicInterpolation_def)
      qed (use False s0 s2 assms(1) in \<open>simp_all add: parabolicInterpolation_def\<close>)
    qed
  qed
qed

lemma yin_scan_fields:
  "sampleRate (yin_scan y buffer) = sampleRate y"
  "threshold (yin_scan y buffer) = threshold y"
  "y_probabilityThreshold (yin_scan y buffer) = y_probabilityThreshold y"
  "halfBuffer (yin_scan y buffer) = halfBuffer y"
  by (simp_all add: yin_scan_def cumulativeMeanNormalizedDifference_def difference_step_def)

lemma yin_scan_first_cell:
  "cell_at (cumulativeMean (yin_scan y buffer)) 1 = None
   \<or> cell_at (cumulativeMean (yin_scan y buffer)) 1 = Some 1
   \<or> halfBuffer y \<le> 1"
  using cmnd_first_cell
  by (simp add: yin_scan_def cumulativeMeanNormalizedDifference_def difference_step_def)

lemma yin_getPitch_cases:
  "yin_getPitch y buffer =
     (case absoluteThreshold (yin_scan y buffer) of
        None \<Rightarrow> (None, yin_scan y buffer)
      | Some tau \<Rightarrow>
          (case cell_at (cumulativeMean (yin_scan y buffer)) tau of
             None \<Rightarrow> (Some \<lparr> e_frequency = js_div (sampleRate y) (parabolicInterpolation (yin_scan y buffer) tau),
                             e_probability = NaN \<rparr>, yin_scan y buffer)
           | Some c \<Rightarrow>
               (if 1 - c < y_probabilityThreshold y then (None, yin_scan y buffer)
                else (Some \<lparr> e_frequency = js_div (sampleRate y) (parabolicInterpolation (yin_scan y buffer) tau),
                             e_probability = Fin (1 - c) \<rparr>, yin_scan y buffer))))"
  by (simp add: yin_getPitch_def Let_def yin_scan_fields split: option.splits)

lemma yin_getPitch_Some:
  assumes "fst (yin_getPitch y buffer) = Some e"
  shows "\<exists>tau c. absoluteThreshold (yin_scan y buffer) = Some tau
           \<and> cell_at (cumulativeMean (yin_scan y buffer)) tau = Some c
           \<and> c < threshold y
           \<and> \<not> 1 - c < y_probabilityThreshold y
           \<and> e_frequency e = js_div (sampleRate y) (parabolicInterpolation (yin_scan y buffer) tau)
           \<and> e_probability e = Fin (1 - c)"
proof -
  obtain tau where tau: "absoluteThreshold (yin_scan y buffer) = Some tau"
    using assms by (cases "absoluteThreshold (yin_scan y buffer)") (simp_all add: yin_getPitch_cases)
  obtain c where c: "cell_at (cumulativeMean (yin_scan y buffer)) tau = Some c" "c < threshold y"
    using absoluteThreshold_props(3) [OF tau] by (auto simp: yin_scan_fields)
  show ?thesis
    using assms tau c by (auto simp: yin_getPitch_cases split: if_splits)
qed

text \<open>
  Claim C3. Let the sample rate be positive, and let the detector be configured with a
  threshold of at most \<open>1\<close> or with a probability threshold that is not negative (the
  defaults are \<open>0.1\<close> and \<open>0.15\<close>). Then for every frame on which \<^verbatim>\<open>getPitch\<close> returns
  an estimate, the frequency of the estimate is a finite number and strictly positive:
  the refined lag is at least the integer lag less one half, and the integer lag is at
  least \<open>2\<close>.
\<close>

theorem yin_frequency_positive:
  assumes "0 < sampleRate y" and "threshold y \<le> 1 \<or> 0 \<le> y_probabilityThreshold y"
    and "fst (yin_getPitch y buffer) = Some e"
  shows "\<exists>f. e_frequency e = Fin f \<and> 0 < f"
proof -
  let ?y = "yin_scan y buffer"
  obtain tau c where tau: "absoluteThreshold ?y = Some tau"
    and c: "cell_at (cumulativeMean ?y) tau = Some c" "c < threshold y"
    and p: "\<not> 1 - c < y_probabilityThreshold y"
    and f: "e_frequency e = js_div (sampleRate y) (parabolicInterpolation ?y tau)"
    using yin_getPitch_Some [OF assms(3)] by blast
  have tau2: "2 \<le> tau" and tauh: "tau < halfBuffer y"
    using absoluteThreshold_props(1,2) [OF tau] by (simp_all add: yin_scan_fields)
  have c1: "c \<le> 1" using assms(2) c(2) p by linarith
  have below: "s0 \<ge> c" if s0: "cell_at (cumulativeMean ?y) (tau - 1) = Some s0" for s0
  proof -
    consider "tau = 2"
      | "nan_less (cell_at (cumulativeMean ?y) tau) (cell_at (cumulativeMean ?y) (tau - 1))"
      | "\<not> nan_less (cell_at (cumulativeMean ?y) (tau - 1)) (Some (threshold ?y))"
      using absoluteThreshold_props(5) [OF tau] by blast
    then show ?thesis
    proof cases
      case 1
      then have "s0 = 1" using yin_scan_first_cell [of y buffer] s0 tauh by auto
      then show ?thesis using c1 by simp
    next
      case 2
      then show ?thesis using s0 c(1) by (simp add: nan_less_def)
    next
      case 3
      then show ?thesis using s0 c(2) by (simp add: nan_less_def yin_scan_fields)
    qed
  qed
  have above: "s2 \<ge> c" if "tau + 1 < halfBuffer ?y" "cell_at (cumulativeMean ?y) (tau + 1) = Some s2" for s2
    using absoluteThreshold_props(4) [OF tau] that c(1) by (simp add: nan_less_def)
  have "real tau - 1 / 2 \<le> parabolicInterpolation ?y tau"
    using parabolicInterpolation_bound [of ?y tau c, OF c(1) below above] by blast
  then have pos: "0 < parabolicInterpolation ?y tau" using tau2 by linarith
  then have "e_frequency e = Fin (sampleRate y / parabolicInterpolation ?y tau)"
    using f by (simp add: js_div_def)
  moreover have "0 < sampleRate y / parabolicInterpolation ?y tau" using pos assms(1) by simp
  ultimately show ?thesis by blast
qed

lemma small_yin_detects:
  "fst (yin_getPitch small_yin square_frame) = Some \<lparr> e_frequency = Fin 10, e_probability = Fin 1 \<rparr>"
  by code_simp

theorem yin_frequency_positive_witness:
  "0 < sampleRate small_yin \<and> threshold small_yin \<le> 1
   \<and> fst (yin_getPitch small_yin square_frame)
       = Some \<lparr> e_frequency = Fin 10, e_probability = Fin 1 \<rparr>
   \<and> (\<exists>f. e_frequency \<lparr> e_frequency = Fin 10, e_probability = Fin 1 \<rparr> = Fin f \<and> 0 < f)"
proof -
  have h1: "0 < sampleRate small_yin" by (simp add: small_yin_def new_YinPitchDetector_def)
  have t: "threshold small_yin \<le> 1" by (simp add: small_yin_def new_YinPitchDetector_def)
  then have h2: "threshold small_yin \<le> 1 \<or> 0 \<le> y_probabilityThreshold small_yin" by simp
  show ?thesis
    using h1 t small_yin_detects yin_frequency_positive [OF h1 h2 small_yin_detects] by blast
qed


section \<open>Properties of the tracking engine\<close>

lemma feed_autoGain_fields:
  "rmsThreshold (snd (feed_autoGain t r ct)) = rmsThreshold t"
  "yin (snd (feed_autoGain t r ct)) = yin t"
  by (simp_all add: feed_autoGain_def split: option.splits prod.splits)

lemma feed_autoGain_yin: "fst (feed_autoGain (t\<lparr> yin := y \<rparr>) r ct) = fst (feed_autoGain t r ct)"
  by (simp add: feed_autoGain_def split: option.splits prod.splits)

lemma getPitch_gate:
  assumes "initialized t" "analyser t" "audioContext t = Some Running"
    and "js_less (rms (analyseAmplitude frame)) (Fin (rmsThreshold t))"
  shows "\<exists>t'. getPitch t frame ct now =
           (Inr (Some \<lparr> frequency = None, probability = Fin 0,
                        r_rms = rms (analyseAmplitude frame),
                        r_peak = peak (analyseAmplitude frame),
                        r_smoothedRms = gm_smoothedRms (fst (feed_autoGain t (rms (analyseAmplitude frame)) ct)),
                        r_gain = gm_gain (fst (feed_autoGain t (rms (analyseAmplitude frame)) ct)) \<rparr>), t')
         \<and> yin t' = yin t"
proof -
  obtain m t1 where f: "feed_autoGain t (rms (analyseAmplitude frame)) ct = (m, t1)"
    by (cases "feed_autoGain t (rms (analyseAmplitude frame)) ct")
  have thr: "rmsThreshold t1 = rmsThreshold t" and y: "yin t1 = yin t"
    using feed_autoGain_fields [of t "rms (analyseAmplitude frame)" ct] f by simp_all
  show ?thesis
    using assms f thr y
    by (simp add: getPitch_def Let_def)
qed

lemma getPitch_detect:
  assumes "fst (getPitch t frame ct now) = Inr (Some rd)" and "frequency rd \<noteq> None"
  shows "\<exists>y e. yin t = Some y \<and> fst (yin_getPitch y frame) = Some e
           \<and> frequency rd = Some (e_frequency e) \<and> probability rd = e_probability e"
proof -
  obtain m t1 where f: "feed_autoGain t (rms (analyseAmplitude frame)) ct = (m, t1)"
    by (cases "feed_autoGain t (rms (analyseAmplitude frame)) ct")
  have y: "yin t1 = yin t"
    using feed_autoGain_fields [of t "rms (analyseAmplitude frame)" ct] f by simp
  show ?thesis
  proof (cases "yin t")
    case None
    then show ?thesis using assms f y
      by (auto simp: getPitch_def Let_def split: if_splits)
  next
    case (Some yy)
    obtain r y' where g: "yin_getPitch yy frame = (r, y')" by (cases "yin_getPitch yy frame")
    show ?thesis
    proof (cases r)
      case None
      then show ?thesis using assms f y Some g
        by (auto simp: getPitch_def Let_def split: if_splits)
    next
      case (Some e)
      then show ?thesis using assms f y \<open>yin t = Some yy\<close> g
        by (auto simp: getPitch_def Let_def split: if_splits)
    qed
  qed
qed

lemma getPitch_detected:
  assumes "initialized t" "analyser t" "audioContext t = Some Running"
    and "\<not> js_less (rms (analyseAmplitude frame)) (Fin (rmsThreshold t))"
    and "yin t = Some y" and "fst (yin_getPitch y frame) = Some e"
  shows "fst (getPitch t frame ct now) =
           Inr (Some \<lparr> frequency = Some (e_frequency e), probability = e_probability e,
                       r_rms = rms (analyseAmplitude frame),
                       r_peak = peak (analyseAmplitude frame),
                       r_smoothedRms = gm_smoothedRms (fst (feed_autoGain t (rms (analyseAmplitude frame)) ct)),
                       r_gain = gm_gain (fst (feed_autoGain t (rms (analyseAmplitude frame)) ct)) \<rparr>)"
proof -
  obtain m t1 where f: "feed_autoGain t (rms (analyseAmplitude frame)) ct = (m, t1)"
    by (cases "feed_autoGain t (rms (analyseAmplitude frame)) ct")
  have thr: "rmsThreshold t1 = rmsThreshold t" and y: "yin t1 = yin t"
    using feed_autoGain_fields [of t "rms (analyseAmplitude frame)" ct] f by simp_all
  obtain y' where g: "yin_getPitch y frame = (Some e, y')"
    using assms(6) by (cases "yin_getPitch y frame") simp
  show ?thesis
    using assms(1-5) f thr y g by (simp add: getPitch_def Let_def)
qed

lemma small_tracker_state:
  "initialized small_tracker" "analyser small_tracker"
  "audioContext small_tracker = Some Running" "yin small_tracker = Some small_yin"
  "rmsThreshold small_tracker = 1 / 100"
  "autoGain small_tracker = Some (new_AutoGainController tracker_autoGain_defaults)"
  by (simp_all add: small_tracker_def init_def new_PitchTracker_def small_yin_def)

lemma square_frame_amplitude: "analyseAmplitude square_frame = \<lparr> rms = Fin 1, peak = 1 \<rparr>"
  by (simp add: analyseAmplitude_def square_frame_def js_div_def Let_def)

lemma small_tracker_feed:
  "fst (feed_autoGain small_tracker (Fin 1) 0) = \<lparr> gm_smoothedRms = Fin 1, gm_gain = Fin (1 / 2) \<rparr>"
  by (simp add: feed_autoGain_def small_tracker_state update_def new_AutoGainController_def
                tracker_autoGain_defaults_def agc_defaults_def clamp_def js_div_def js_max_def
                js_min_def Let_def)

lemma strict_yin_scan:
  "absoluteThreshold (yin_scan strict_yin shallow_frame) = Some 2"
  "cell_at (cumulativeMean (yin_scan strict_yin shallow_frame)) 2 = Some (1 / 3)"
  by code_simp+

text \<open>
  Claim C5. When the threshold search has found a lag \<open>tau\<close> and \<open>1 - cmnd[tau]\<close>, taken
  at this integer lag, is below the probability threshold of the detector, the detector
  returns no estimate. Every reading of the tracker that carries a frequency therefore
  carries a finite probability that is at least the probability threshold of the
  tracker's detector, and \<^verbatim>\<open>init\<close> gives the detector the probability threshold of the
  tracker.
\<close>

theorem low_probability_rejected:
  "(absoluteThreshold (yin_scan y buffer) = Some tau
      \<and> cell_at (cumulativeMean (yin_scan y buffer)) tau = Some c
      \<and> 1 - c < y_probabilityThreshold y
    \<longrightarrow> fst (yin_getPitch y buffer) = None)
   \<and> (fst (getPitch t frame ct now) = Inr (Some rd) \<and> frequency rd \<noteq> None
    \<longrightarrow> (\<exists>d p. yin t = Some d \<and> probability rd = Fin p \<and> y_probabilityThreshold d \<le> p))
   \<and> (\<not> initialized t0
    \<longrightarrow> (\<exists>d. yin (init t0 rate st) = Some d
              \<and> y_probabilityThreshold d = probabilityThreshold (init t0 rate st)))"
proof (intro conjI impI)
  assume "absoluteThreshold (yin_scan y buffer) = Some tau
      \<and> cell_at (cumulativeMean (yin_scan y buffer)) tau = Some c
      \<and> 1 - c < y_probabilityThreshold y"
  then show "fst (yin_getPitch y buffer) = None" by (simp add: yin_getPitch_cases)
next
  assume a: "fst (getPitch t frame ct now) = Inr (Some rd) \<and> frequency rd \<noteq> None"
  then obtain d e where d: "yin t = Some d" "fst (yin_getPitch d frame) = Some e"
      "probability rd = e_probability e"
    using getPitch_detect [of t frame ct now rd] by blast
  obtain c where c: "\<not> 1 - c < y_probabilityThreshold d" "e_probability e = Fin (1 - c)"
    using yin_getPitch_Some [OF d(2)] by blast
  show "\<exists>d p. yin t = Some d \<and> probability rd = Fin p \<and> y_probabilityThreshold d \<le> p"
    using d(1,3) c by (intro exI [of _ d] exI [of _ "1 - c"]) simp
next
  assume "\<not> initialized t0"
  then show "\<exists>d. yin (init t0 rate st) = Some d
              \<and> y_probabilityThreshold d = probabilityThreshold (init t0 rate st)"
    by (simp add: init_def new_YinPitchDetector_def)
qed

theorem low_probability_rejected_witness:
  "absoluteThreshold (yin_scan strict_yin shallow_frame) = Some 2
   \<and> cell_at (cumulativeMean (yin_scan strict_yin shallow_frame)) 2 = Some (1 / 3)
   \<and> 1 - 1 / 3 < y_probabilityThreshold strict_yin
   \<and> fst (yin_getPitch strict_yin shallow_frame) = None
   \<and> fst (getPitch small_tracker square_frame 0 0)
       = Inr (Some \<lparr> frequency = Some (Fin 10), probability = Fin 1, r_rms = Fin 1, r_peak = 1,
                     r_smoothedRms = Fin 1, r_gain = Fin (1 / 2) \<rparr>)
   \<and> yin small_tracker = Some small_yin
   \<and> y_probabilityThreshold small_yin \<le> 1
   \<and> initialized small_tracker
   \<and> y_probabilityThreshold small_yin = probabilityThreshold small_tracker"
proof -
  have p: "1 - 1 / 3 < y_probabilityThreshold strict_yin"
    by (simp add: strict_yin_def new_YinPitchDetector_def)
  have g: "fst (getPitch small_tracker square_frame 0 0)
       = Inr (Some \<lparr> frequency = Some (Fin 10), probability = Fin 1, r_rms = Fin 1, r_peak = 1,
                     r_smoothedRms = Fin 1, r_gain = Fin (1 / 2) \<rparr>)"
    using getPitch_detected [of small_tracker square_frame small_yin
            "\<lparr> e_frequency = Fin 10, e_probability = Fin 1 \<rparr>" 0 0]
    by (simp add: small_tracker_state square_frame_amplitude small_tracker_feed small_yin_detects)
  have q: "y_probabilityThreshold small_yin \<le> 1"
    "y_probabilityThreshold small_yin = probabilityThreshold small_tracker"
    by (simp_all add: small_yin_def small_tracker_def init_def new_PitchTracker_def
                      new_YinPitchDetector_def)
  show ?thesis
    using strict_yin_scan p g q small_tracker_state(1,4)
      low_probability_rejected [of strict_yin shallow_frame 2 "1 / 3" small_tracker square_frame 0 0
         "\<lparr> frequency = Some (Fin 10), probability = Fin 1, r_rms = Fin 1, r_peak = 1,
            r_smoothedRms = Fin 1, r_gain = Fin (1 / 2) \<rparr>"
         "new_PitchTracker 8 (1 / 10) (15 / 100) (1 / 100) tracker_autoGain_defaults" 19 Running]
    by simp
qed

text \<open>
  Claim C7. For a frame of \<open>n > 0\<close> samples that are all zero, the analysis gives
  \<open>rms = 0\<close> and \<open>peak = 0\<close>. A running tracker with a positive \<open>rmsThreshold\<close> then
  returns a reading with frequency \<^verbatim>\<open>null\<close>, probability \<open>0\<close> and the amplitude and gain
  diagnostics. It does so through the RMS gate, without a call of the detector: the
  detector object (its scratch arrays included) is as before, and the reading is the
  same whatever \<^verbatim>\<open>this.yin\<close> holds, even when there is no detector to call.
\<close>

theorem silent_frame_gated:
  assumes "0 < n" and "0 < rmsThreshold t"
    and "initialized t" and "analyser t" and "audioContext t = Some Running"
  shows "rms (analyseAmplitude (replicate n 0)) = Fin 0
       \<and> peak (analyseAmplitude (replicate n 0)) = 0
       \<and> (\<exists>t'. getPitch t (replicate n 0) ct now =
                  (Inr (Some \<lparr> frequency = None, probability = Fin 0, r_rms = Fin 0, r_peak = 0,
                               r_smoothedRms = gm_smoothedRms (fst (feed_autoGain t (Fin 0) ct)),
                               r_gain = gm_gain (fst (feed_autoGain t (Fin 0) ct)) \<rparr>), t')
                \<and> yin t' = yin t)
       \<and> fst (getPitch (t\<lparr> yin := d \<rparr>) (replicate n 0) ct now)
           = fst (getPitch t (replicate n 0) ct now)"
proof -
  have a: "analyseAmplitude (replicate n 0) = \<lparr> rms = Fin 0, peak = 0 \<rparr>"
    using assms(1) by (rule analyseAmplitude_zeros)
  have gate: "js_less (rms (analyseAmplitude (replicate n 0))) (Fin (rmsThreshold t))"
    using assms(2) a by simp
  have r: "\<exists>t'. getPitch t (replicate n 0) ct now =
                  (Inr (Some \<lparr> frequency = None, probability = Fin 0, r_rms = Fin 0, r_peak = 0,
                               r_smoothedRms = gm_smoothedRms (fst (feed_autoGain t (Fin 0) ct)),
                               r_gain = gm_gain (fst (feed_autoGain t (Fin 0) ct)) \<rparr>), t')
                \<and> yin t' = yin t"
    using getPitch_gate [OF assms(3,4,5) gate, of ct now] a by simp
  have gate': "js_less (rms (analyseAmplitude (replicate n 0))) (Fin (rmsThreshold (t\<lparr> yin := d \<rparr>)))"
    using gate by simp
  have r': "\<exists>t'. getPitch (t\<lparr> yin := d \<rparr>) (replicate n 0) ct now =
                  (Inr (Some \<lparr> frequency = None, probability = Fin 0, r_rms = Fin 0, r_peak = 0,
                               r_smoothedRms = gm_smoothedRms (fst (feed_autoGain t (Fin 0) ct)),
                               r_gain = gm_gain (fst (feed_autoGain t (Fin 0) ct)) \<rparr>), t')"
    using getPitch_gate [of "t\<lparr> yin := d \<rparr>" "replicate n 0" ct now] gate' assms(3,4,5) a
    by (simp add: feed_autoGain_yin) blast
  have "fst (getPitch (t\<lparr> yin := d \<rparr>) (replicate n 0) ct now)
           = fst (getPitch t (replicate n 0) ct now)"
    using r r' by auto
  then show ?thesis using a r by simp
qed

theorem silent_frame_gated_witness:
  "(0::nat) < 8 \<and> 0 < rmsThreshold small_tracker \<and> initialized small_tracker
   \<and> analyser small_tracker \<and> audioContext small_tracker = Some Running
   \<and> rms (analyseAmplitude (replicate 8 0)) = Fin 0
   \<and> peak (analyseAmplitude (replicate 8 0)) = 0
   \<and> fst (getPitch small_tracker (replicate 8 0) 0 0)
       = Inr (Some \<lparr> frequency = None, probability = Fin 0, r_rms = Fin 0, r_peak = 0,
                     r_smoothedRms = Fin 0, r_gain = Fin 200 \<rparr>)
   \<and> yin (snd (getPitch small_tracker (replicate 8 0) 0 0)) = Some small_yin"
proof -
  have h1: "(0::nat) < 8" by simp
  have h2: "0 < rmsThreshold small_tracker" by (simp add: small_tracker_state)
  have f: "fst (feed_autoGain small_tracker (Fin 0) 0)
             = \<lparr> gm_smoothedRms = Fin 0, gm_gain = Fin 200 \<rparr>"
    by (simp add: feed_autoGain_def small_tracker_state update_def new_AutoGainController_def
                  tracker_autoGain_defaults_def agc_defaults_def clamp_def js_div_def js_max_def
                  js_min_def Let_def)
  show ?thesis
    using h1 h2 small_tracker_state(1-4) f
      silent_frame_gated [OF h1 h2 small_tracker_state(1-3), of 0 0 "Some small_yin"]
    by auto
qed

section \<open>The amplitude analysis in 64-bit arithmetic\<close>

lemma pow2_powr: "pow2 e = 2 powr of_int e"
proof (cases "0 \<le> e")
  case True
  then have "2 powr of_int e = (2::real) powr real (nat e)" by simp
  also have "\<dots> = 2 ^ nat e" by (rule powr_realpow) simp
  finally show ?thesis using True by (simp add: pow2_def)
next
  case False
  then have "2 powr of_int e = (2::real) powr - real (nat (- e))" by simp
  also have "\<dots> = 1 / 2 powr real (nat (- e))" by (simp only: powr_minus_divide)
  also have "2 powr real (nat (- e)) = (2::real) ^ nat (- e)" by (rule powr_realpow) simp
  finally show ?thesis using False by (simp add: pow2_def)
qed

text \<open>The rounding of a number whose binade is known.\<close>

lemma round64_binade:
  assumes "pow2 (e + 52) \<le> x" and "x < pow2 (e + 53)"
  shows "round64 x = of_int (round_even (x / pow2 e)) * pow2 e"
proof -
  have "0 < pow2 (e + 52)" by (simp add: pow2_powr)
  then have pos: "0 < x" using assms(1) by linarith
  have "2 powr (of_int e + 52) \<le> x" using assms(1) by (simp add: pow2_powr)
  then have "of_int e + 52 \<le> log 2 x" using pos by (simp add: le_log_iff)
  moreover have "x < 2 powr (of_int e + 53)" using assms(2) by (simp add: pow2_powr)
  then have "log 2 x < of_int e + 53" using pos by (simp add: log_less_iff)
  ultimately have "\<lfloor>log 2 x\<rfloor> = e + 52" by linarith
  then show ?thesis using pos by (simp add: round64_def Let_def)
qed

lemma round64_below_7:
  "1 / 128 \<le> x \<Longrightarrow> x < 1 / 64 \<Longrightarrow> round64 x = of_int (round_even (x * 2 ^ 59)) / 2 ^ 59"
  using round64_binade [of "- 59" x] by (simp add: pow2_def)

lemma round64_below_6:
  "1 / 64 \<le> x \<Longrightarrow> x < 1 / 32 \<Longrightarrow> round64 x = of_int (round_even (x * 2 ^ 58)) / 2 ^ 58"
  using round64_binade [of "- 58" x] by (simp add: pow2_def)

lemma round64_below_5:
  "1 / 32 \<le> x \<Longrightarrow> x < 1 / 16 \<Longrightarrow> round64 x = of_int (round_even (x * 2 ^ 57)) / 2 ^ 57"
  using round64_binade [of "- 57" x] by (simp add: pow2_def)

lemma round64_below_4:
  "1 / 16 \<le> x \<Longrightarrow> x < 1 / 8 \<Longrightarrow> round64 x = of_int (round_even (x * 2 ^ 56)) / 2 ^ 56"
  using round64_binade [of "- 56" x] by (simp add: pow2_def)

lemma round64_below_3:
  "1 / 8 \<le> x \<Longrightarrow> x < 1 / 4 \<Longrightarrow> round64 x = of_int (round_even (x * 2 ^ 55)) / 2 ^ 55"
  using round64_binade [of "- 55" x] by (simp add: pow2_def)

lemma round64_below_2:
  "1 / 4 \<le> x \<Longrightarrow> x < 1 / 2 \<Longrightarrow> round64 x = of_int (round_even (x * 2 ^ 54)) / 2 ^ 54"
  using round64_binade [of "- 54" x] by (simp add: pow2_def)

lemma round64_below_1:
  "1 / 2 \<le> x \<Longrightarrow> x < 1 \<Longrightarrow> round64 x = of_int (round_even (x * 2 ^ 53)) / 2 ^ 53"
  using round64_binade [of "- 53" x] by (simp add: pow2_def)

lemma round64_above_0:
  "1 \<le> x \<Longrightarrow> x < 2 \<Longrightarrow> round64 x = of_int (round_even (x * 2 ^ 52)) / 2 ^ 52"
  using round64_binade [of "- 52" x] by (simp add: pow2_def)

lemma round64_above_1:
  "2 \<le> x \<Longrightarrow> x < 4 \<Longrightarrow> round64 x = of_int (round_even (x * 2 ^ 51)) / 2 ^ 51"
  using round64_binade [of "- 51" x] by (simp add: pow2_def)

lemma round64_above_2:
  "4 \<le> x \<Longrightarrow> x < 8 \<Longrightarrow> round64 x = of_int (round_even (x * 2 ^ 50)) / 2 ^ 50"
  using round64_binade [of "- 50" x] by (simp add: pow2_def)

lemma round64_above_3:
  "8 \<le> x \<Longrightarrow> x < 16 \<Longrightarrow> round64 x = of_int (round_even (x * 2 ^ 49)) / 2 ^ 49"
  using round64_binade [of "- 49" x] by (simp add: pow2_def)

lemma round64_above_4:
  "16 \<le> x \<Longrightarrow> x < 32 \<Longrightarrow> round64 x = of_int (round_even (x * 2 ^ 48)) / 2 ^ 48"
  using round64_binade [of "- 48" x] by (simp add: pow2_def)

lemmas round64_binades =
  round64_below_7 round64_below_6 round64_below_5 round64_below_4
  round64_below_3 round64_below_2 round64_below_1 round64_above_0
  round64_above_1 round64_above_2 round64_above_3 round64_above_4

lemma round_even_lower: "y - 1 / 2 \<le> of_int (round_even y)"
proof -
  let ?f = "\<lfloor>y\<rfloor>"
  have f: "of_int ?f \<le> y" "y < of_int ?f + 1" by linarith+
  consider "y - of_int ?f < 1 / 2" | "1 / 2 < y - of_int ?f" | "y - of_int ?f = 1 / 2"
    by linarith
  then show ?thesis
  proof cases
    case 1
    then have "round_even y = ?f" by (simp add: round_even_def Let_def)
    then have "of_int (round_even y) = (of_int ?f :: real)" by simp
    then show ?thesis using 1 by linarith
  next
    case 2
    then have "round_even y = ?f + 1" by (simp add: round_even_def Let_def)
    then have "of_int (round_even y) = of_int ?f + (1 :: real)" by simp
    then show ?thesis using f by linarith
  next
    case 3
    then have "round_even y = ?f \<or> round_even y = ?f + 1" by (simp add: round_even_def Let_def)
    then have "of_int (round_even y) = (of_int ?f :: real)
                 \<or> of_int (round_even y) = of_int ?f + (1 :: real)"
      by auto
    then show ?thesis using 3 by linarith
  qed
qed

subsection \<open>How far the rounding can lift the result\<close>

text \<open>
  One rounding keeps a number that is not negative so, and enlarges it by the factor
  \<open>slack\<close> at most.
\<close>

lemma slack_ge_1: "1 \<le> slack" by (simp add: slack_def)

lemma round_even_upper: "of_int (round_even y) \<le> y + 1 / 2"
proof -
  let ?f = "\<lfloor>y\<rfloor>"
  have f: "of_int ?f \<le> y" "y < of_int ?f + 1" by linarith+
  consider "y - of_int ?f < 1 / 2" | "1 / 2 < y - of_int ?f" | "y - of_int ?f = 1 / 2"
    by linarith
  then show ?thesis
  proof cases
    case 1
    then have "round_even y = ?f" by (simp add: round_even_def Let_def)
    then have "of_int (round_even y) = (of_int ?f :: real)" by simp
    then show ?thesis using f by linarith
  next
    case 2
    then have "round_even y = ?f + 1" by (simp add: round_even_def Let_def)
    then have "of_int (round_even y) = of_int ?f + (1 :: real)" by simp
    then show ?thesis using 2 by linarith
  next
    case 3
    then have "round_even y = ?f \<or> round_even y = ?f + 1" by (simp add: round_even_def Let_def)
    then have "of_int (round_even y) = (of_int ?f :: real)
                 \<or> of_int (round_even y) = of_int ?f + (1 :: real)"
      by auto
    then show ?thesis using 3 by linarith
  qed
qed

lemma round_even_nonneg: "0 \<le> y \<Longrightarrow> 0 \<le> round_even y"
proof -
  assume "0 \<le> y"
  then have "0 \<le> \<lfloor>y\<rfloor>" by simp
  then show ?thesis by (simp add: round_even_def Let_def)
qed

lemma round64_nonneg: assumes "0 \<le> x" shows "0 \<le> round64 x"
proof (cases "x = 0")
  case True
  then show ?thesis by (simp add: round64_def)
next
  case False
  then have pos: "0 < x" using assms by simp
  define e where "e = \<lfloor>log 2 \<bar>x\<bar>\<rfloor> - 52"
  have p: "0 < pow2 e" by (simp add: pow2_powr)
  have "0 \<le> \<bar>x\<bar> / pow2 e" using p by simp
  then have "0 \<le> round_even (\<bar>x\<bar> / pow2 e)" by (rule round_even_nonneg)
  then have "0 \<le> of_int (round_even (\<bar>x\<bar> / pow2 e)) * pow2 e" using p by simp
  then show ?thesis using pos by (simp add: round64_def Let_def e_def)
qed

lemma round64_upper: assumes "0 \<le> x" shows "round64 x \<le> x * slack"
proof (cases "x = 0")
  case True
  then show ?thesis by (simp add: round64_def)
next
  case False
  then have pos: "0 < x" using assms by simp
  define E where "E = \<lfloor>log 2 x\<rfloor>"
  define e where "e = E - 52"
  have p: "0 < pow2 e" by (simp add: pow2_powr)
  have "of_int E \<le> log 2 x" unfolding E_def by simp
  then have "2 powr of_int E \<le> x" using pos by (simp add: powr_le_iff)
  then have lo: "pow2 E \<le> x" by (simp add: pow2_powr)
  have split: "pow2 E = 2 ^ 52 * pow2 e"
    unfolding pow2_powr e_def by (simp add: powr_diff powr_realpow [symmetric])
  define y where "y = x / pow2 e"
  have y: "2 ^ 52 \<le> y" unfolding y_def using lo split p by (simp add: pos_le_divide_eq)
  have "of_int (round_even y) \<le> y + 1 / 2" by (rule round_even_upper)
  also have "\<dots> \<le> y + y / 2 ^ 53" using y by simp
  also have "\<dots> = y * slack" by (simp add: slack_def algebra_simps)
  finally have "of_int (round_even y) * pow2 e \<le> y * slack * pow2 e"
    using p by simp
  also have "\<dots> = x * slack" unfolding y_def using p by simp
  finally have "of_int (round_even y) * pow2 e \<le> x * slack" .
  moreover have "round64 x = of_int (round_even y) * pow2 e"
    using pos by (simp add: round64_def Let_def e_def E_def y_def)
  ultimately show ?thesis by simp
qed

text \<open>
  The peak is the same in both models. The sum of the squares after \<open>k\<close> samples is at
  most \<open>k\<close> times the square of the peak, enlarged by the \<open>k + 1\<close> roundings made.
\<close>

lemma analyse_loop64_peak:
  "snd (analyse_loop64 xs acc pk) = snd (analyse_loop xs acc' pk)"
  by (induction xs arbitrary: acc acc' pk) (simp_all add: Let_def)

lemma slack_power_ge_1: "1 \<le> slack ^ k"
  using slack_ge_1 by (rule one_le_power)

lemma square_le_square:
  fixes x p :: real
  assumes "\<bar>x\<bar> \<le> p"
  shows "x * x \<le> p * p"
proof -
  have "0 \<le> p" using assms by linarith
  then have "\<bar>x\<bar> * \<bar>x\<bar> \<le> p * p" using assms by (intro mult_mono) simp_all
  then show ?thesis by simp
qed

lemma analyse_loop64_sum_bound:
  assumes "\<And>x. x \<in> set xs \<Longrightarrow> \<bar>x\<bar> \<le> p"
    and "0 \<le> acc" and "acc \<le> real k * (p * p) * slack ^ (k + 1)"
  shows "0 \<le> fst (analyse_loop64 xs acc pk)
       \<and> fst (analyse_loop64 xs acc pk)
            \<le> real (k + length xs) * (p * p) * slack ^ (k + length xs + 1)"
  using assms
proof (induction xs arbitrary: acc pk k)
  case Nil
  then show ?case by simp
next
  case (Cons x xs)
  let ?sq = "round64 (x * x)"
  let ?acc = "round64 (acc + ?sq)"
  have s1: "1 \<le> slack" by (rule slack_ge_1)
  have s0: "0 < slack" using s1 by linarith
  have xp: "x * x \<le> p * p" using Cons.prems(1) [of x] by (simp add: square_le_square)
  have pp: "0 \<le> p * p" by simp
  have sq0: "0 \<le> ?sq" by (rule round64_nonneg) simp
  have "?sq \<le> x * x * slack" by (rule round64_upper) simp
  also have "\<dots> \<le> p * p * slack" using xp s0 by simp
  also have "\<dots> \<le> p * p * slack ^ (k + 1)"
    using pp slack_power_ge_1 [of k] s0 by (simp add: mult_left_mono)
  finally have sq: "?sq \<le> p * p * slack ^ (k + 1)" .
  have a0: "0 \<le> acc + ?sq" using Cons.prems(2) sq0 by simp
  have acc0: "0 \<le> ?acc" using a0 by (rule round64_nonneg)
  have "?acc \<le> (acc + ?sq) * slack" using a0 by (rule round64_upper)
  also have "\<dots> \<le> (real k * (p * p) * slack ^ (k + 1) + p * p * slack ^ (k + 1)) * slack"
    using Cons.prems(3) sq s0 by simp
  also have "\<dots> = real (k + 1) * (p * p) * slack ^ (k + 1 + 1)"
    by (simp add: algebra_simps)
  finally have acc': "?acc \<le> real (k + 1) * (p * p) * slack ^ (k + 1 + 1)" .
  have "\<And>y. y \<in> set xs \<Longrightarrow> \<bar>y\<bar> \<le> p" using Cons.prems(1) by simp
  from Cons.IH [OF this acc0 acc']
  show ?case by (simp add: Let_def)
qed

lemma sqrt_slack_power: "sqrt (slack ^ (n + 2)) \<le> slack ^ (n div 2 + 2)"
proof -
  have s1: "1 \<le> slack" by (rule slack_ge_1)
  have "n + 2 \<le> 2 * (n div 2 + 2)" by simp
  then have "slack ^ (n + 2) \<le> slack ^ (2 * (n div 2 + 2))"
    using s1 by (rule power_increasing)
  also have "\<dots> = (slack ^ (n div 2 + 2)) ^ 2" by (rule power_even_eq)
  finally have "sqrt (slack ^ (n + 2)) \<le> sqrt ((slack ^ (n div 2 + 2)) ^ 2)"
    by (rule real_sqrt_le_mono)
  moreover have "0 \<le> slack ^ (n div 2 + 2)" using s1 by simp
  ultimately show ?thesis by simp
qed

lemma analyseAmplitude64_bound:
  assumes "buffer \<noteq> []"
  shows "\<exists>r. rms (analyseAmplitude64 buffer) = Fin r \<and> 0 \<le> r
             \<and> r \<le> peak (analyseAmplitude64 buffer) * slack ^ (length buffer div 2 + 3)
             \<and> 0 \<le> peak (analyseAmplitude64 buffer)
             \<and> peak (analyseAmplitude64 buffer) = peak (analyseAmplitude buffer)"
proof -
  obtain acc pk where L: "analyse_loop64 buffer 0 0 = (acc, pk)"
    by (cases "analyse_loop64 buffer 0 0")
  have pk: "pk = snd (analyse_loop buffer 0 0)"
    using analyse_loop64_peak [of buffer 0 0 0] L by simp
  have pk0: "0 \<le> pk" unfolding pk by (rule analyse_loop_peak_mono)
  have bound: "\<And>x. x \<in> set buffer \<Longrightarrow> \<bar>x\<bar> \<le> pk"
    unfolding pk by (rule analyse_loop_peak_bound)
  let ?n = "length buffer"
  have n: "0 < real ?n" using assms by simp
  have s1: "1 \<le> slack" by (rule slack_ge_1)
  have s0: "0 < slack" using s1 by linarith
  have "0 \<le> fst (analyse_loop64 buffer 0 0)
       \<and> fst (analyse_loop64 buffer 0 0)
            \<le> real (0 + ?n) * (pk * pk) * slack ^ (0 + ?n + 1)"
    by (rule analyse_loop64_sum_bound) (simp_all add: bound)
  then have acc0: "0 \<le> acc" and acc: "acc \<le> real ?n * (pk * pk) * slack ^ (?n + 1)"
    using L by simp_all
  let ?q = "acc / real ?n"
  have q0: "0 \<le> ?q" using acc0 n by simp
  have "?q \<le> pk * pk * slack ^ (?n + 1)" using acc n by (simp add: field_simps)
  then have q: "?q * slack \<le> pk * pk * slack ^ (?n + 1) * slack"
    using s0 by (intro mult_right_mono) simp_all
  let ?m = "round64 ?q"
  have m0: "0 \<le> ?m" using q0 by (rule round64_nonneg)
  have "?m \<le> ?q * slack" using q0 by (rule round64_upper)
  also have "\<dots> \<le> pk * pk * slack ^ (?n + 1) * slack" by (rule q)
  also have "\<dots> = pk * pk * slack ^ (?n + 2)" by simp
  finally have m: "?m \<le> pk * pk * slack ^ (?n + 2)" .
  have r0: "0 \<le> sqrt ?m" using m0 by simp
  have "sqrt ?m \<le> sqrt (pk * pk * slack ^ (?n + 2))" using m by (rule real_sqrt_le_mono)
  also have "\<dots> = pk * sqrt (slack ^ (?n + 2))" using pk0 by (simp add: real_sqrt_mult)
  also have "\<dots> \<le> pk * slack ^ (?n div 2 + 2)"
    using pk0 sqrt_slack_power [of ?n] by (rule mult_left_mono [rotated])
  finally have r: "sqrt ?m \<le> pk * slack ^ (?n div 2 + 2)" .
  let ?r = "round64 (sqrt ?m)"
  have rr0: "0 \<le> ?r" using r0 by (rule round64_nonneg)
  have "?r \<le> sqrt ?m * slack" using r0 by (rule round64_upper)
  also have "\<dots> \<le> pk * slack ^ (?n div 2 + 2) * slack"
    using r s0 by (intro mult_right_mono) simp_all
  also have "\<dots> = pk * slack ^ (?n div 2 + 3)" by (simp add: eval_nat_numeral)
  finally have rr: "?r \<le> pk * slack ^ (?n div 2 + 3)" .
  have "rms (analyseAmplitude64 buffer) = Fin ?r"
    using n m0 by (simp add: analyseAmplitude64_def L js_div64_def)
  moreover have "peak (analyseAmplitude64 buffer) = pk" by (simp add: analyseAmplitude64_def L)
  moreover have "peak (analyseAmplitude buffer) = pk"
    by (simp add: analyseAmplitude_def pk split: prod.splits)
  ultimately show ?thesis using rr rr0 pk0 by simp
qed

text \<open>
  Claim C10, as the code has it. For every frame with at least one sample, of \<open>n\<close>
  samples, the analysis in the 64-bit arithmetic of the code gives a finite \<open>rms\<close> and a
  \<open>peak\<close> that are both non-negative, and \<open>rms \<le> peak * (1 + 2^-53) ^ (n div 2 + 3)\<close>:
  the roundings of the sum, the quotient and the square root can lift \<open>rms\<close> above
  \<open>peak\<close>, by no more than this factor. With the arithmetic taken exactly, on the same
  peak, \<open>0 \<le> rms \<le> peak\<close>. (For the empty frame the code divides zero by zero.)
\<close>

theorem analyseAmplitude_rms_bound:
  assumes "buffer \<noteq> []"
  shows "(\<exists>r. rms (analyseAmplitude64 buffer) = Fin r \<and> 0 \<le> r
             \<and> r \<le> peak (analyseAmplitude64 buffer) * slack ^ (length buffer div 2 + 3))
       \<and> 0 \<le> peak (analyseAmplitude64 buffer)
       \<and> (\<exists>r. rms (analyseAmplitude buffer) = Fin r \<and> 0 \<le> r
             \<and> r \<le> peak (analyseAmplitude buffer))
       \<and> peak (analyseAmplitude buffer) = peak (analyseAmplitude64 buffer)"
proof -
  from analyseAmplitude64_bound [OF assms]
  obtain r where r: "rms (analyseAmplitude64 buffer) = Fin r" "0 \<le> r"
      "r \<le> peak (analyseAmplitude64 buffer) * slack ^ (length buffer div 2 + 3)"
      "0 \<le> peak (analyseAmplitude64 buffer)"
      "peak (analyseAmplitude64 buffer) = peak (analyseAmplitude buffer)"
    by blast
  from analyseAmplitude_exact [OF assms]
  obtain q where q: "rms (analyseAmplitude buffer) = Fin q" "0 \<le> q"
      "q \<le> peak (analyseAmplitude buffer)"
    by blast
  show ?thesis using r q by simp
qed

theorem analyseAmplitude_rms_bound_witness:
  "[1 / 2, - 3 / 4] \<noteq> ([] :: real list)
   \<and> (\<exists>r. rms (analyseAmplitude64 [1 / 2, - 3 / 4]) = Fin r \<and> 0 \<le> r
          \<and> r \<le> peak (analyseAmplitude64 [1 / 2, - 3 / 4]) * slack ^ 4)
   \<and> peak (analyseAmplitude64 [1 / 2, - 3 / 4]) = 3 / 4"
proof -
  have h: "[1 / 2, - 3 / 4] \<noteq> ([] :: real list)" by simp
  have p: "peak (analyseAmplitude64 [1 / 2, - 3 / 4]) = 3 / 4"
    by (simp add: analyseAmplitude64_def Let_def split: prod.splits)
  have n: "length [1 / 2, - 3 / 4 :: real] div 2 + 3 = 4" by simp
  note b = analyseAmplitude_rms_bound [OF h, unfolded n]
  show ?thesis using h p b by blast
qed


subsection \<open>A frame on which the rounding lifts the result above the peak\<close>

lemma sum_const_numeral:
  "sum_const (numeral k) m acc = sum_const (pred_numeral k) m (round64 (acc + m))"
  by (simp add: numeral_eq_Suc)

lemma sum_const_add: "sum_const (a + b) m acc = sum_const b m (sum_const a m acc)"
  by (induction a arbitrary: acc) simp_all

lemma analyse_loop64_replicate:
  "analyse_loop64 (replicate n x) acc pk =
     (sum_const n (round64 (x * x)) acc,
      if n = 0 then pk else if \<bar>x\<bar> > pk then \<bar>x\<bar> else pk)"
  by (induction n arbitrary: acc pk) (simp_all add: Let_def)

text \<open>
  The frame of 2048 samples that all hold \<open>0.1\<close> as a 32-bit number, which is
  \<open>13421773 / 2^27\<close>: the square of the sample, and the sum after each 256 samples.
\<close>

lemma tenth_square: "round64 (180143990463529 / 18014398509481984) = 180143990463529 / 18014398509481984"
  by (simp add: round64_binades round_even_def Let_def)

lemma tenth_sum_1:
  "sum_const 256 (180143990463529 / 18014398509481984) (0) = 5764607694832903 / 2251799813685248"
  by (simp add: sum_const_numeral round64_binades round_even_def Let_def)

lemma tenth_sum_2:
  "sum_const 256 (180143990463529 / 18014398509481984) (5764607694832903 / 2251799813685248) = 1441151923708239 / 281474976710656"
  by (simp add: sum_const_numeral round64_binades round_even_def Let_def)

lemma tenth_sum_3:
  "sum_const 256 (180143990463529 / 18014398509481984) (1441151923708239 / 281474976710656) = 2161727885562383 / 281474976710656"
  by (simp add: sum_const_numeral round64_binades round_even_def Let_def)

lemma tenth_sum_4:
  "sum_const 256 (180143990463529 / 18014398509481984) (2161727885562383 / 281474976710656) = 2882303847416471 / 281474976710656"
  by (simp add: sum_const_numeral round64_binades round_even_def Let_def)

lemma tenth_sum_5:
  "sum_const 256 (180143990463529 / 18014398509481984) (2882303847416471 / 281474976710656) = 3602879809270551 / 281474976710656"
  by (simp add: sum_const_numeral round64_binades round_even_def Let_def)

lemma tenth_sum_6:
  "sum_const 256 (180143990463529 / 18014398509481984) (3602879809270551 / 281474976710656) = 4323455771124631 / 281474976710656"
  by (simp add: sum_const_numeral round64_binades round_even_def Let_def)

lemma tenth_sum_7:
  "sum_const 256 (180143990463529 / 18014398509481984) (4323455771124631 / 281474976710656) = 5044031732978807 / 281474976710656"
  by (simp add: sum_const_numeral round64_binades round_even_def Let_def)

lemma tenth_sum_8:
  "sum_const 256 (180143990463529 / 18014398509481984) (5044031732978807 / 281474976710656) = 5764607694833015 / 281474976710656"
  by (simp add: sum_const_numeral round64_binades round_even_def Let_def)

lemma tenth_sum: "sum_const 2048 (180143990463529 / 18014398509481984) 0 = 5764607694833015 / 281474976710656"
proof -
  have "sum_const 2048 (180143990463529 / 18014398509481984) 0
          = sum_const (256 + (256 + (256 + (256 + (256 + (256 + (256 + 256)))))))
              (180143990463529 / 18014398509481984) 0"
    by simp
  then show ?thesis
    by (simp only: sum_const_add tenth_sum_1 tenth_sum_2 tenth_sum_3 tenth_sum_4 tenth_sum_5
                   tenth_sum_6 tenth_sum_7 tenth_sum_8)
qed

lemma tenth_mean:
  "round64 (5764607694833015 / 576460752303423488) = 5764607694833015 / 576460752303423488"
  by (simp add: round64_binades round_even_def Let_def)

lemma tenth_root:
  "13421773 / 134217728 < round64 (sqrt (5764607694833015 / 576460752303423488))"
proof -
  let ?q = "5764607694833015 / 576460752303423488 :: real"
  let ?x = "13421773 / 134217728 :: real"
  have lo: "1 / 16 \<le> sqrt ?q"
  proof -
    have "(1 / 16) ^ 2 \<le> ?q" by (simp add: power2_eq_square)
    then have "sqrt ((1 / 16) ^ 2) \<le> sqrt ?q" by (rule real_sqrt_le_mono)
    then show ?thesis by simp
  qed
  have hi: "sqrt ?q < 1 / 8"
  proof -
    have "?q < (1 / 8) ^ 2" by (simp add: power2_eq_square)
    then have "sqrt ?q < sqrt ((1 / 8) ^ 2)" by (rule real_sqrt_less_mono)
    then show ?thesis by simp
  qed
  have r: "round64 (sqrt ?q) = of_int (round_even (sqrt ?q * 2 ^ 56)) / 2 ^ 56"
    using lo hi by (rule round64_below_4)
  have "(?x + 1 / 2 ^ 57) ^ 2 < ?q" by (simp add: power2_eq_square)
  then have "sqrt ((?x + 1 / 2 ^ 57) ^ 2) < sqrt ?q" by (rule real_sqrt_less_mono)
  then have "?x + 1 / 2 ^ 57 < sqrt ?q" by simp
  then have "?x * 2 ^ 56 < sqrt ?q * 2 ^ 56 - 1 / 2" by simp
  also have "\<dots> \<le> of_int (round_even (sqrt ?q * 2 ^ 56))" by (rule round_even_lower)
  finally have "?x < of_int (round_even (sqrt ?q * 2 ^ 56)) / 2 ^ 56"
    by (simp add: field_simps)
  then show ?thesis using r by simp
qed

text \<open>
  Claim C10 as stated fails on the arithmetic of the machine: for the frame of 2048
  samples that all hold \<open>0.1\<close> as a 32-bit number, the peak is the sample and the
  rounded sums bring the \<open>rms\<close> above it.
\<close>

theorem rms_above_peak_in_64_bits:
  "peak (analyseAmplitude64 (replicate 2048 (13421773 / 134217728))) = 13421773 / 134217728
   \<and> js_less (Fin (peak (analyseAmplitude64 (replicate 2048 (13421773 / 134217728)))))
              (rms (analyseAmplitude64 (replicate 2048 (13421773 / 134217728))))"
proof -
  have l: "analyse_loop64 (replicate 2048 (13421773 / 134217728)) 0 0
             = (5764607694833015 / 281474976710656, 13421773 / 134217728)"
    by (simp add: analyse_loop64_replicate tenth_square tenth_sum)
  have a: "analyseAmplitude64 (replicate 2048 (13421773 / 134217728))
             = \<lparr> rms = Fin (round64 (sqrt (5764607694833015 / 576460752303423488))),
                 peak = 13421773 / 134217728 \<rparr>"
    unfolding analyseAmplitude64_def l
    by (simp add: js_div64_def tenth_mean)
  show ?thesis using tenth_root by (simp add: a)
qed

end
